theory Spec2Isabelle
  imports Main "HOL-Library.Word"
begin

section \<open>Data model\<close>

text \<open>
  Objects held through \<^verbatim>\<open>winrt::com_ptr\<close> have identity: two pointers may name the same
  object, and a mutation through one is seen through the other. The model keeps every
  such object in an arena, a list of records; the address of an object is its index, and
  \<^verbatim>\<open>winrt::make_self\<close> appends a record and returns the new index.
\<close>

type_synonym winrt_guid = "128 word"
type_synonym addr = nat

datatype OriginTag = NoOrigin | InBox | User | Fragment | ProfilesDefaults | Generated

datatype SettingsLoadWarnings =
    DuplicateProfile | UnknownColorScheme | InvalidBackgroundImage | InvalidIcon
  | MissingDefaultProfile | AtLeastOneKeybindingWarning | InvalidColorSchemeInCmd
  | FailedToWriteToSettings | KeybindingWarning nat

datatype SettingsLoadErrors = NoProfiles | AllProfilesHidden

text \<open>A parsed JSON document (the value type of the JSON library). The members of an
  object are listed in the order in which the library iterates over them.\<close>

datatype Json =
    JNull | JBool bool | JInt int | JString string
  | JArray "Json list" | JObject "(string \<times> Json) list"

datatype DeserializationError =
  DeserializationError (jsonValue: Json) (key: "string option") (expectedType: string)

text \<open>The value of a setting, as text.\<close>

type_synonym SettingValue = string

text \<open>The settings that \<^verbatim>\<open>DuplicateProfile\<close> names, grouped as the code groups them:
  settings of the profile itself, of its font sub-object and of an appearance.\<close>

datatype ProfileKey =
    Icon | CloseOnExit | TabTitle | TabColor | SuppressApplicationTitle | UseAcrylic
  | AcrylicOpacity | ScrollState | Padding | Commandline | StartingDirectory
  | AntialiasingMode | ForceFullRepaintRendering | SoftwareRendering | HistorySize
  | SnapOnInput | AltGrAliasing | BellStyle | ConnectionType

datatype FontKey = FontFace | FontSize | FontWeight | FontFeatures | FontAxes

datatype AppearanceKey =
    ColorSchemeName | Foreground | Background | SelectionBackground | CursorColor
  | PixelShaderPath | IntenseTextStyle | BackgroundImagePath | BackgroundImageOpacity
  | BackgroundImageStretchMode | BackgroundImageAlignment | RetroTerminalEffect
  | CursorShape | CursorHeight

datatype SettingKey = PK ProfileKey | FK FontKey | AK AppearanceKey

text \<open>
  Modelled from the spec: the class \<^verbatim>\<open>Profile\<close> (Profile.h, Profile.cpp and the inheritance
  template it derives from are not among the sources). Section 3 of the specification gives
  a profile its identity (\<open>guid\<close>, explicit or derived; \<open>name\<close>; \<open>source\<close>; \<open>origin\<close>;
  \<open>hidden\<close>; \<open>deleted\<close>), the patch target \<open>updates\<close>, settings fields that are each either
  unset or explicitly set on this record, an optional unfocused-appearance sub-record, and
  an ordered list of parent profiles.
\<close>

record Profile =
  origin :: OriginTag
  name :: string
  guid :: "winrt_guid option"
  hidden :: bool
  deleted :: bool
  source :: string
  updates :: winrt_guid
  explicit :: "SettingKey \<Rightarrow> SettingValue option"
  unfocused :: "(AppearanceKey \<Rightarrow> SettingValue option) option"
  parents :: "addr list"

record ColorScheme =
  scheme_name :: string
  scheme_table :: "nat list"

text \<open>A command of the action map, as far as validation looks at it: its nested commands,
  the scheme name of a \<^verbatim>\<open>SetColorSchemeArgs\<close> action if it has one, and whether it iterates
  over the colour schemes.\<close>

datatype Command =
  Command (NestedCommands: "(string \<times> Command) list") (SetColorSchemeArgs: "string option")
    (IterateOnColorSchemes: bool)

text \<open>
  The global settings object. The fields that the code under verification reads or writes
  are spelled out; the remaining scalar settings are kept by their JSON key.
\<close>

record GlobalAppSettings =
  UnparsedDefaultProfile :: string
  defaultProfile :: winrt_guid
  DisabledProfileSources :: "string list option"
  scalars :: "string \<Rightarrow> Json option"
  colorSchemes :: "string \<Rightarrow> ColorScheme option"
  keybindingsWarnings :: "SettingsLoadWarnings list"
  actionMapParents :: "addr list"
  gparents :: "addr list"

record Heap =
  profs :: "Profile list"
  globs :: "GlobalAppSettings list"

record ParsedSettings =
  globals :: addr
  baseLayerProfile :: addr
  profiles :: "addr list"
  profilesByGuid :: "winrt_guid \<Rightarrow> addr option"

record SettingsLoader =
  inboxSettings :: ParsedSettings
  userSettings :: ParsedSettings
  warnings :: "SettingsLoadWarnings list"
  ignoredNamespaces :: "string set"
  userProfileCount :: nat

text \<open>
  Collaborators whose code is outside the sources: the conversion of one JSON object into
  a profile, a global-settings object or a colour scheme (each may reject its input with a
  deserialization error); the derivation of a GUID from a profile's name and source; the
  built-in default of every setting; the conversion between GUIDs and their text (the
  parser throws on a malformed text); the expansion of environment strings and of a
  background image path; whether a text is accepted as a URI; the commands that the action
  map of a global-settings object lists by name; and the localized suffix for the name of a
  copy.
\<close>

record Env =
  Profile_FromJson :: "Json \<Rightarrow> DeserializationError + Profile"
  GlobalAppSettings_FromJson :: "Json \<Rightarrow> DeserializationError + GlobalAppSettings"
  ColorScheme_Validate :: "Json \<Rightarrow> bool"
  ColorScheme_FromJson :: "Json \<Rightarrow> ColorScheme"
  GenerateGuidForProfile :: "string \<Rightarrow> string \<Rightarrow> winrt_guid"
  DefaultValue :: "SettingKey \<Rightarrow> SettingValue"
  GuidFromString :: "string \<Rightarrow> winrt_guid option"
  GuidToString :: "winrt_guid \<Rightarrow> string"
  ExpandEnvironmentStrings :: "string \<Rightarrow> string"
  ExpandBackgroundImagePath :: "string \<Rightarrow> string"
  Uri_valid :: "string \<Rightarrow> bool"
  ActionMap_NameMap :: "Heap \<Rightarrow> addr \<Rightarrow> (string \<times> Command) list"
  CopySuffix :: string

section \<open>Profiles and globals in the arena\<close>

definition make_Profile :: Profile where
  "make_Profile = \<lparr> origin = NoOrigin, name = ''Default'', guid = None, hidden = False,
     deleted = False, source = [], updates = 0, explicit = (\<lambda>k. None), unfocused = None,
     parents = [] \<rparr>"

definition alloc_Profile :: "Profile \<Rightarrow> Heap \<Rightarrow> addr \<times> Heap" where
  "alloc_Profile p h = (length (profs h), h\<lparr>profs := profs h @ [p]\<rparr>)"

definition alloc_Globals :: "GlobalAppSettings \<Rightarrow> Heap \<Rightarrow> addr \<times> Heap" where
  "alloc_Globals g h = (length (globs h), h\<lparr>globs := globs h @ [g]\<rparr>)"

definition prof :: "Heap \<Rightarrow> addr \<Rightarrow> Profile" where
  "prof h a = profs h ! a"

definition glob :: "Heap \<Rightarrow> addr \<Rightarrow> GlobalAppSettings" where
  "glob h a = globs h ! a"

definition upd_prof :: "addr \<Rightarrow> (Profile \<Rightarrow> Profile) \<Rightarrow> Heap \<Rightarrow> Heap" where
  "upd_prof a f h = h\<lparr>profs := (profs h)[a := f (profs h ! a)]\<rparr>"

definition upd_glob :: "addr \<Rightarrow> (GlobalAppSettings \<Rightarrow> GlobalAppSettings) \<Rightarrow> Heap \<Rightarrow> Heap" where
  "upd_glob a f h = h\<lparr>globs := (globs h)[a := f (globs h ! a)]\<rparr>"

text \<open>\<^verbatim>\<open>HasGuid\<close> and \<^verbatim>\<open>Guid\<close>: the explicit GUID, or else the one derived from name and
  source.\<close>

definition HasGuid :: "Profile \<Rightarrow> bool" where
  "HasGuid p = (guid p \<noteq> None)"

definition Guid :: "Env \<Rightarrow> Profile \<Rightarrow> winrt_guid" where
  "Guid env p = (case guid p of Some g \<Rightarrow> g | None \<Rightarrow> GenerateGuidForProfile env (name p) (source p))"

text \<open>
  Modelled from the spec: \<^verbatim>\<open>InsertParent\<close> of the inheritance template, section 4.1:
  it appends to the ordered parent list, or inserts at a position the caller gives.
\<close>

definition InsertParent :: "addr \<Rightarrow> addr \<Rightarrow> Heap \<Rightarrow> Heap" where
  "InsertParent child parent h = upd_prof child (\<lambda>p. p\<lparr>parents := parents p @ [parent]\<rparr>) h"

definition InsertParentAt :: "addr \<Rightarrow> nat \<Rightarrow> addr \<Rightarrow> Heap \<Rightarrow> Heap" where
  "InsertParentAt child i parent h =
     upd_prof child (\<lambda>p. p\<lparr>parents := take i (parents p) @ parent # drop i (parents p)\<rparr>) h"

definition Globals_InsertParent :: "addr \<Rightarrow> addr \<Rightarrow> Heap \<Rightarrow> Heap" where
  "Globals_InsertParent child parent h = upd_glob child (\<lambda>g. g\<lparr>gparents := gparents g @ [parent]\<rparr>) h"

section \<open>Parsing one source\<close>

definition NameKey :: string where "NameKey = ''name''"
definition GuidKey :: string where "GuidKey = ''guid''"
definition ProfilesKey :: string where "ProfilesKey = ''profiles''"
definition DefaultSettingsKey :: string where "DefaultSettingsKey = ''defaults''"
definition ProfilesListKey :: string where "ProfilesListKey = ''list''"
definition SchemesKey :: string where "SchemesKey = ''schemes''"

fun isObject :: "Json \<Rightarrow> bool" where
  "isObject (JObject ms) = True"
| "isObject j = False"

fun isArray :: "Json \<Rightarrow> bool" where
  "isArray (JArray xs) = True"
| "isArray j = False"

fun isNull :: "Json \<Rightarrow> bool" where
  "isNull JNull = True"
| "isNull j = False"

fun findMember :: "Json \<Rightarrow> string \<Rightarrow> Json option" where
  "findMember (JObject ms) k = map_of ms k"
| "findMember j k = None"

definition isMember :: "Json \<Rightarrow> string \<Rightarrow> bool" where
  "isMember j k = (findMember j k \<noteq> None)"

text \<open>Iterating over a JSON value: the elements of an array, the member values of an
  object, nothing for any other value.\<close>

fun elements :: "Json \<Rightarrow> Json list" where
  "elements (JArray xs) = xs"
| "elements (JObject ms) = map snd ms"
| "elements j = []"

definition getJSONValue :: "Json \<Rightarrow> string \<Rightarrow> Json" where
  "getJSONValue json k =
     (if isObject json then (case findMember json k of Some v \<Rightarrow> v | None \<Rightarrow> JNull) else JNull)"

definition isValidProfileObject :: "Json \<Rightarrow> bool" where
  "isValidProfileObject profileJson =
     (isObject profileJson \<and> (isMember profileJson NameKey \<or> isMember profileJson GuidKey))"

definition AddColorScheme :: "ColorScheme \<Rightarrow> GlobalAppSettings \<Rightarrow> GlobalAppSettings" where
  "AddColorScheme scheme g = g\<lparr>colorSchemes := (colorSchemes g)(scheme_name scheme \<mapsto> scheme)\<rparr>"

definition appendProfile ::
  "Env \<Rightarrow> Heap \<Rightarrow> addr \<Rightarrow> SettingsLoadWarnings list \<times> ParsedSettings
     \<Rightarrow> SettingsLoadWarnings list \<times> ParsedSettings" where
  "appendProfile env h profile ws_settings =
     (case ws_settings of (ws, settings) \<Rightarrow>
        (case profilesByGuid settings (Guid env (prof h profile)) of
           None \<Rightarrow>
             (ws, settings\<lparr>profilesByGuid := (profilesByGuid settings)(Guid env (prof h profile) \<mapsto> profile),
                           profiles := profiles settings @ [profile]\<rparr>)
         | Some existing \<Rightarrow> (ws @ [DuplicateProfile], settings)))"

text \<open>One profile object of \<^verbatim>\<open>profiles.list\<close>, once \<^verbatim>\<open>Profile::FromJson\<close> has accepted it: the
  origin is stamped and a profile without a GUID is given its derived one.\<close>

definition stampProfile :: "Env \<Rightarrow> OriginTag \<Rightarrow> Profile \<Rightarrow> Profile" where
  "stampProfile env tag p0 =
     (let p1 = p0\<lparr>origin := tag\<rparr>
      in if \<not> HasGuid p1 then p1\<lparr>guid := Some (Guid env p1)\<rparr> else p1)"

text \<open>The loop over \<^verbatim>\<open>profiles.list\<close>. The result carries the exception that ended the loop,
  if one did, together with the state reached.\<close>

fun parseProfiles ::
  "Env \<Rightarrow> OriginTag \<Rightarrow> Json list \<Rightarrow> Heap \<times> SettingsLoadWarnings list \<times> ParsedSettings
     \<Rightarrow> DeserializationError option \<times> Heap \<times> SettingsLoadWarnings list \<times> ParsedSettings" where
  "parseProfiles env tag [] st = (None, st)"
| "parseProfiles env tag (profileJson # rest) (h, ws, settings) =
     (if isValidProfileObject profileJson then
        (case Profile_FromJson env profileJson of
           Inl e \<Rightarrow> (Some e, h, ws, settings)
         | Inr p0 \<Rightarrow>
             (case alloc_Profile (stampProfile env tag p0) h of (a, h1) \<Rightarrow>
                (case appendProfile env h1 a (ws, settings) of (ws1, settings1) \<Rightarrow>
                   parseProfiles env tag rest (h1, ws1, settings1))))
      else parseProfiles env tag rest (h, ws, settings))"

fun addSchemes :: "Env \<Rightarrow> Json list \<Rightarrow> GlobalAppSettings \<Rightarrow> GlobalAppSettings" where
  "addSchemes env [] g = g"
| "addSchemes env (schemeJson # rest) g =
     (if isObject schemeJson \<and> ColorScheme_Validate env schemeJson
      then addSchemes env rest (AddColorScheme (ColorScheme_FromJson env schemeJson) g)
      else addSchemes env rest g)"

definition profilesArrayOf :: "Json \<Rightarrow> Json" where
  "profilesArrayOf json =
     (let profilesObject = getJSONValue json ProfilesKey
      in if isArray profilesObject then profilesObject
         else getJSONValue profilesObject ProfilesListKey)"

definition defaultsObjectOf :: "Json \<Rightarrow> Json" where
  "defaultsObjectOf json = getJSONValue (getJSONValue json ProfilesKey) DefaultSettingsKey"

definition emptyParsedSettings :: "addr \<Rightarrow> addr \<Rightarrow> ParsedSettings" where
  "emptyParsedSettings ga ba =
     \<lparr>globals = ga, baseLayerProfile = ba, profiles = [], profilesByGuid = (\<lambda>g. None)\<rparr>"

text \<open>
  \<^verbatim>\<open>_parse\<close>, from the parsed document on. It fills a \<^verbatim>\<open>ParsedSettings\<close> from scratch; when an
  exception leaves it, the heap and the warnings written so far stay as they are.
\<close>

definition parse ::
  "Env \<Rightarrow> OriginTag \<Rightarrow> Json \<Rightarrow> Heap \<times> SettingsLoadWarnings list
     \<Rightarrow> (DeserializationError + ParsedSettings) \<times> Heap \<times> SettingsLoadWarnings list" where
  "parse env tag json h_ws =
     (case h_ws of (h, ws) \<Rightarrow>
      (case GlobalAppSettings_FromJson env json of
         Inl e \<Rightarrow> (Inl e, h, ws)
       | Inr g0 \<Rightarrow>
          (let schemes = getJSONValue json SchemesKey;
               g1 = (if \<not> isNull schemes then addSchemes env (elements schemes) g0 else g0)
           in case alloc_Globals g1 h of (ga, h1) \<Rightarrow>
              (case Profile_FromJson env (defaultsObjectOf json) of
                 Inl e \<Rightarrow> (Inl e, h1, ws)
               | Inr b0 \<Rightarrow>
                  (case alloc_Profile (b0\<lparr>guid := None, origin := ProfilesDefaults\<rparr>) h1 of (ba, h2) \<Rightarrow>
                     (case parseProfiles env tag (elements (profilesArrayOf json))
                             (h2, ws, emptyParsedSettings ga ba) of
                        (Some e, h3, ws3, settings3) \<Rightarrow> (Inl e, h3, ws3)
                      | (None, h3, ws3, settings3) \<Rightarrow> (Inr settings3, h3, ws3)))))))"

section \<open>Reference functions and sample data\<close>

text \<open>Keeping the first element for every key, given the keys seen so far: what
  de-duplication by GUID is expected to leave of a list of profiles.\<close>

fun firstOcc :: "('a \<Rightarrow> 'k) \<Rightarrow> 'k set \<Rightarrow> 'a list \<Rightarrow> 'a list" where
  "firstOcc f seen [] = []"
| "firstOcc f seen (x # xs) =
     (if f x \<in> seen then firstOcc f seen xs else x # firstOcc f (insert (f x) seen) xs)"

text \<open>The profile record that \<^verbatim>\<open>_parse\<close> stores for an accepted profile object.\<close>

definition stamped :: "Env \<Rightarrow> OriginTag \<Rightarrow> Json \<Rightarrow> Profile" where
  "stamped env tag j =
     (case Profile_FromJson env j of Inr p \<Rightarrow> stampProfile env tag p | Inl e \<Rightarrow> make_Profile)"

definition appendAll ::
  "Env \<Rightarrow> Heap \<Rightarrow> addr list \<Rightarrow> SettingsLoadWarnings list \<times> ParsedSettings
     \<Rightarrow> SettingsLoadWarnings list \<times> ParsedSettings" where
  "appendAll env h as st = foldl (\<lambda>st a. appendProfile env h a st) st as"

definition make_Globals :: GlobalAppSettings where
  "make_Globals = \<lparr> UnparsedDefaultProfile = [], defaultProfile = 0, DisabledProfileSources = None,
     scalars = (\<lambda>k. None), colorSchemes = (\<lambda>k. None), keybindingsWarnings = [],
     actionMapParents = [], gparents = [] \<rparr>"

definition emptyHeap :: Heap where
  "emptyHeap = \<lparr> profs = [], globs = [] \<rparr>"

text \<open>A small instance of the collaborators, to run the model on concrete documents: a
  profile object gives its name as a string, its GUID as a number and its hidden flag as a
  boolean; a derived GUID is the length of the name.\<close>

definition sampleProfileFromJson :: "Json \<Rightarrow> Profile" where
  "sampleProfileFromJson j = make_Profile
     \<lparr> name := (case findMember j ''name'' of Some (JString s) \<Rightarrow> s | _ \<Rightarrow> ''Default''),
       guid := (case findMember j ''guid'' of Some (JInt n) \<Rightarrow> Some (word_of_int n) | _ \<Rightarrow> None),
       hidden := (case findMember j ''hidden'' of Some (JBool b) \<Rightarrow> b | _ \<Rightarrow> False),
       updates := (case findMember j ''updates'' of Some (JInt n) \<Rightarrow> word_of_int n | _ \<Rightarrow> 0),
       explicit := (\<lambda>k. if k = AK ColorSchemeName
                        then (case findMember j ''colorScheme'' of Some (JString s) \<Rightarrow> Some s | _ \<Rightarrow> None)
                        else None) \<rparr>"

definition sampleEnv :: Env where
  "sampleEnv = \<lparr> Profile_FromJson = (\<lambda>j. Inr (sampleProfileFromJson j)),
     GlobalAppSettings_FromJson = (\<lambda>j. Inr make_Globals),
     ColorScheme_Validate = (\<lambda>j. True),
     ColorScheme_FromJson = (\<lambda>j. \<lparr> scheme_name = (case findMember j ''name'' of Some (JString s) \<Rightarrow> s | _ \<Rightarrow> []),
                                     scheme_table = [] \<rparr>),
     GenerateGuidForProfile = (\<lambda>n s. of_nat (length n)),
     DefaultValue = (\<lambda>k. if k = AK ColorSchemeName then ''Campbell'' else []),
     GuidFromString = (\<lambda>s. None),
     GuidToString = (\<lambda>g. replicate (unat g) CHR ''g''),
     ExpandEnvironmentStrings = (\<lambda>s. s),
     ExpandBackgroundImagePath = (\<lambda>s. s),
     Uri_valid = (\<lambda>s. True),
     ActionMap_NameMap = (\<lambda>h a. []),
     CopySuffix = ''Copy'' \<rparr>"

definition twoProfilesSameGuid :: Json where
  "twoProfilesSameGuid = JObject [(''profiles'', JObject [(''list'', JArray
      [JObject [(''name'', JString ''first''), (''guid'', JInt 7)],
       JObject [(''name'', JString ''second''), (''guid'', JInt 7)]])])]"

definition oneNamelessProfile :: Json where
  "oneNamelessProfile = JObject [(''profiles'', JObject [(''list'', JArray
      [JObject [(''commandline'', JString ''cmd.exe'')]])])]"

text \<open>A document whose profile list holds an object without \<open>name\<close> and \<open>guid\<close>, a value
  that is not an object, and one profile with both.\<close>

definition namelessThenNamed :: Json where
  "namelessThenNamed = JObject [(''profiles'', JObject [(''list'', JArray
      [JObject [(''commandline'', JString ''cmd.exe'')],
       JString ''not an object'',
       JObject [(''name'', JString ''first''), (''guid'', JInt 7)]])])]"

section \<open>Resolving a setting through the parents\<close>

text \<open>
  Modelled from the spec: field resolution of the inheritance template, section 4.1:
  the node's explicit value if present, else the parents in list order, first hit wins.
  The walk is the recursion of the getter; it is cut at a depth given by the first
  argument, and \<open>None\<close> says that the walk was cut (or met an address outside the heap)
  before it ended. \<open>Some None\<close> is "no value found", \<open>Some (Some (o, v))\<close> is the value
  \<open>v\<close> found on the node \<open>o\<close>.
\<close>

fun getImpl :: "nat \<Rightarrow> Heap \<Rightarrow> (Profile \<Rightarrow> 'a option) \<Rightarrow> addr \<Rightarrow> (addr \<times> 'a) option option"
and getFromParents :: "nat \<Rightarrow> Heap \<Rightarrow> (Profile \<Rightarrow> 'a option) \<Rightarrow> addr list \<Rightarrow> (addr \<times> 'a) option option"
where
  "getImpl 0 h f a = None"
| "getImpl (Suc n) h f a =
     (if a < length (profs h) then
        (case f (prof h a) of
           Some v \<Rightarrow> Some (Some (a, v))
         | None \<Rightarrow> getFromParents n h f (parents (prof h a)))
      else None)"
| "getFromParents n h f [] = Some None"
| "getFromParents n h f (p # ps) =
     (case getImpl n h f p of
        None \<Rightarrow> None
      | Some (Some r) \<Rightarrow> Some (Some r)
      | Some None \<Rightarrow> getFromParents n h f ps)"

text \<open>A walk that ends visits no node twice on one path, so its depth is at most the
  number of profiles in the heap.\<close>

definition resolve :: "Heap \<Rightarrow> (Profile \<Rightarrow> 'a option) \<Rightarrow> addr \<Rightarrow> (addr \<times> 'a) option option" where
  "resolve h f a = getImpl (length (profs h)) h f a"

text \<open>The resolved value of a setting, \<open>Some None\<close> standing for the setting's built-in
  default; and the ancestor a value is inherited from (\<^verbatim>\<open>...OverrideSource\<close>).\<close>

definition Resolved :: "Heap \<Rightarrow> SettingKey \<Rightarrow> addr \<Rightarrow> SettingValue option option" where
  "Resolved h k a = map_option (map_option snd) (resolve h (\<lambda>p. explicit p k) a)"

definition Has :: "Heap \<Rightarrow> SettingKey \<Rightarrow> addr \<Rightarrow> bool" where
  "Has h k a = (explicit (prof h a) k \<noteq> None)"

definition OverrideSource :: "Heap \<Rightarrow> SettingKey \<Rightarrow> addr \<Rightarrow> addr option option" where
  "OverrideSource h k a =
     map_option (map_option fst)
       (getFromParents (length (profs h) - 1) h (\<lambda>p. explicit p k) (parents (prof h a)))"

section \<open>The settings loader\<close>

datatype LoadFailure =
    UncaughtDeserializationError DeserializationError
  | SettingsTypedDeserializationException DeserializationError
  | SettingsException SettingsLoadErrors

text \<open>The constructor of \<^verbatim>\<open>SettingsLoader\<close>: parse the inbox document, then the user document
  (whose deserialization error is rethrown with location information), read the disabled
  profile sources and remember how many profiles the user wrote.\<close>

definition SettingsLoader_new :: "Env \<Rightarrow> Json \<Rightarrow> Json \<Rightarrow> Heap \<Rightarrow> LoadFailure + Heap \<times> SettingsLoader" where
  "SettingsLoader_new env userJSON inboxJSON h =
     (case parse env InBox inboxJSON (h, []) of
        (Inl e, h1, ws1) \<Rightarrow> Inl (UncaughtDeserializationError e)
      | (Inr inbox, h1, ws1) \<Rightarrow>
          (case parse env User userJSON (h1, ws1) of
             (Inl e, h2, ws2) \<Rightarrow> Inl (SettingsTypedDeserializationException e)
           | (Inr user, h2, ws2) \<Rightarrow>
               Inr (h2, \<lparr> inboxSettings = inbox, userSettings = user, warnings = ws2,
                          ignoredNamespaces =
                            (case DisabledProfileSources (glob h2 (globals user)) of
                               Some ids \<Rightarrow> set ids | None \<Rightarrow> {}),
                          userProfileCount = length (profiles user) \<rparr>)))"

definition ReproduceProfile :: "Env \<Rightarrow> addr \<Rightarrow> Heap \<Rightarrow> addr \<times> Heap" where
  "ReproduceProfile env parent h =
     (case alloc_Profile make_Profile h of (profile, h1) \<Rightarrow>
        (profile,
         InsertParent profile parent
           (upd_prof profile (\<lambda>p. p\<lparr>origin := User, name := name (prof h1 parent),
                                     guid := Some (Guid env (prof h1 parent)),
                                     hidden := hidden (prof h1 parent)\<rparr>) h1)))"

text \<open>A profile generator: its namespace, and what a call of its \<^verbatim>\<open>GenerateProfiles\<close> does
  to the heap and to the list of inbox profiles, which it is given by reference. The call
  ends by returning (\<open>Inr\<close>) or by throwing (\<open>Inl\<close>); the exception is caught and logged, and
  what the generator had appended to the list before it threw stays there.\<close>

record Generator =
  GetNamespace :: string
  GenerateProfiles_of :: "Heap \<Rightarrow> addr list \<Rightarrow> (Heap \<times> addr list) + (Heap \<times> addr list)"

definition executeGenerator :: "Generator \<Rightarrow> Heap \<times> SettingsLoader \<Rightarrow> Heap \<times> SettingsLoader" where
  "executeGenerator generator st =
     (case st of (h, loader) \<Rightarrow>
        if GetNamespace generator \<notin> ignoredNamespaces loader then
          (case GenerateProfiles_of generator h (profiles (inboxSettings loader)) of
             Inr (h1, ps) \<Rightarrow> (h1, loader\<lparr>inboxSettings := (inboxSettings loader)\<lparr>profiles := ps\<rparr>\<rparr>)
           | Inl (h1, ps) \<Rightarrow> (h1, loader\<lparr>inboxSettings := (inboxSettings loader)\<lparr>profiles := ps\<rparr>\<rparr>))
        else (h, loader))"

definition GenerateProfiles :: "Generator list \<Rightarrow> Heap \<times> SettingsLoader \<Rightarrow> Heap \<times> SettingsLoader" where
  "GenerateProfiles generators st = foldl (\<lambda>st g. executeGenerator g st) st generators"

fun mergeInbox :: "Env \<Rightarrow> addr list \<Rightarrow> Heap \<times> ParsedSettings \<Rightarrow> Heap \<times> ParsedSettings" where
  "mergeInbox env [] st = st"
| "mergeInbox env (generatedProfile # rest) (h, user) =
     (case profilesByGuid user (Guid env (prof h generatedProfile)) of
        Some existing \<Rightarrow> mergeInbox env rest (InsertParent existing generatedProfile h, user)
      | None \<Rightarrow>
          (case ReproduceProfile env generatedProfile h of (child, h1) \<Rightarrow>
             mergeInbox env rest
               (h1, user\<lparr>profilesByGuid :=
                            (profilesByGuid user)(Guid env (prof h generatedProfile) \<mapsto> generatedProfile),
                          profiles := profiles user @ [child]\<rparr>)))"

definition MergeInboxIntoUserProfiles :: "Env \<Rightarrow> Heap \<times> SettingsLoader \<Rightarrow> Heap \<times> SettingsLoader" where
  "MergeInboxIntoUserProfiles env st =
     (case st of (h, loader) \<Rightarrow>
        (case mergeInbox env (profiles (inboxSettings loader)) (h, userSettings loader) of
           (h1, user1) \<Rightarrow> (h1, loader\<lparr>userSettings := user1\<rparr>)))"

text \<open>\<^verbatim>\<open>DisableDeletedProfiles\<close>. The persisted set of generated profile GUIDs belongs to the
  application state; it is passed in, and the result says what the state holds afterwards
  and whether it was written.\<close>

fun disableDeleted ::
  "Env \<Rightarrow> addr list \<Rightarrow> Heap \<times> winrt_guid set \<times> bool \<Rightarrow> Heap \<times> winrt_guid set \<times> bool" where
  "disableDeleted env [] st = st"
| "disableDeleted env (profile # rest) (h, generatedProfileIds, newGeneratedProfiles) =
     (if Guid env (prof h profile) \<notin> generatedProfileIds
      then disableDeleted env rest
             (h, insert (Guid env (prof h profile)) generatedProfileIds, True)
      else disableDeleted env rest
             (upd_prof profile (\<lambda>p. p\<lparr>deleted := True, hidden := True\<rparr>) h,
              generatedProfileIds, newGeneratedProfiles))"

definition DisableDeletedProfiles ::
  "Env \<Rightarrow> winrt_guid set \<Rightarrow> Heap \<times> SettingsLoader \<Rightarrow> (Heap \<times> SettingsLoader) \<times> winrt_guid set \<times> bool" where
  "DisableDeletedProfiles env state st =
     (case st of (h, loader) \<Rightarrow>
        (case disableDeleted env (drop (userProfileCount loader) (profiles (userSettings loader)))
                (h, state, False) of
           (h1, generatedProfileIds, newGeneratedProfiles) \<Rightarrow>
             ((h1, loader), (if newGeneratedProfiles then generatedProfileIds else state),
              newGeneratedProfiles)))"

text \<open>\<^verbatim>\<open>GlobalAppSettings::_FinalizeInheritance\<close>: for every parent, its action map becomes a
  parent of this action map, its keybinding warnings are appended, and its colour schemes
  are inserted into this map (an insertion replaces an entry of the same name).\<close>

definition Globals_FinalizeInheritance :: "addr \<Rightarrow> Heap \<Rightarrow> Heap" where
  "Globals_FinalizeInheritance a h =
     fold (\<lambda>parent h1.
             upd_glob a (\<lambda>g. g\<lparr>actionMapParents := actionMapParents g @ [parent],
                                 keybindingsWarnings :=
                                   keybindingsWarnings g @ keybindingsWarnings (glob h1 parent),
                                 colorSchemes := colorSchemes g ++ colorSchemes (glob h1 parent)\<rparr>) h1)
          (gparents (glob h a)) h"

text \<open>
  Modelled from the spec: \<^verbatim>\<open>Profile::_FinalizeInheritance\<close>, section 4.1: finalizing
  propagates non-field state from the parents, and "for profiles, nothing extra".
\<close>

definition Profile_FinalizeInheritance :: "addr \<Rightarrow> Heap \<Rightarrow> Heap" where
  "Profile_FinalizeInheritance a h = h"

definition FinalizeLayering :: "Heap \<times> SettingsLoader \<Rightarrow> Heap \<times> SettingsLoader" where
  "FinalizeLayering st =
     (case st of (h, loader) \<Rightarrow>
        let user = userSettings loader;
            inbox = inboxSettings loader;
            h1 = Globals_InsertParent (globals user) (globals inbox) h;
            h2 = Globals_FinalizeInheritance (globals user) h1;
            h3 = InsertParent (baseLayerProfile user) (baseLayerProfile inbox) h2;
            h4 = Profile_FinalizeInheritance (baseLayerProfile user) h3;
            h5 = fold (\<lambda>profile hp.
                         Profile_FinalizeInheritance profile
                           (InsertParentAt profile 0 (baseLayerProfile user) hp))
                      (profiles user) h4
        in (h5, loader))"

text \<open>A loader state as it stands before \<^verbatim>\<open>DisableDeletedProfiles\<close>: one profile written by the
  user (address 0) and two profiles appended by the merge steps (addresses 1 and 2), with
  the base-layer profiles of the inbox and of the user at addresses 3 and 4.\<close>

definition sampleProfile :: "winrt_guid \<Rightarrow> string \<Rightarrow> addr list \<Rightarrow> Profile" where
  "sampleProfile g n ps = make_Profile\<lparr>origin := User, name := n, guid := Some g, parents := ps\<rparr>"

definition stage6Heap :: Heap where
  "stage6Heap = \<lparr> profs = [sampleProfile 1 ''written by the user'' [],
                           sampleProfile 2 ''seen before'' [],
                           sampleProfile 3 ''new'' [],
                           make_Profile\<lparr>origin := ProfilesDefaults\<rparr>,
                           make_Profile\<lparr>origin := ProfilesDefaults\<rparr>],
                  globs = [make_Globals, make_Globals] \<rparr>"

definition stage6Loader :: SettingsLoader where
  "stage6Loader = \<lparr> inboxSettings = emptyParsedSettings 0 3,
       userSettings = \<lparr> globals = 1, baseLayerProfile = 4, profiles = [0, 1, 2],
                        profilesByGuid = [1 \<mapsto> 0, 2 \<mapsto> 1, 3 \<mapsto> 2] \<rparr>,
       warnings = [], ignoredNamespaces = {}, userProfileCount = 1 \<rparr>"

text \<open>A loader whose user wrote no profile, with two generated profiles of the same GUID in
  the inbox list (addresses 0 and 1); globals and base-layer profiles of inbox and user
  are at addresses 0, 1 and 2, 3.\<close>

definition sameGuidHeap :: Heap where
  "sameGuidHeap = \<lparr> profs = [(sampleProfile 7 ''first'' [])\<lparr>origin := Generated\<rparr>,
                             (sampleProfile 7 ''second'' [])\<lparr>origin := Generated\<rparr>,
                             make_Profile\<lparr>origin := ProfilesDefaults\<rparr>,
                             make_Profile\<lparr>origin := ProfilesDefaults\<rparr>],
                    globs = [make_Globals, make_Globals] \<rparr>"

definition sameGuidLoader :: SettingsLoader where
  "sameGuidLoader = \<lparr> inboxSettings = (emptyParsedSettings 0 2)\<lparr>profiles := [0, 1]\<rparr>,
       userSettings = emptyParsedSettings 1 3,
       warnings = [], ignoredNamespaces = {}, userProfileCount = 0 \<rparr>"

section \<open>The settings container\<close>

record CascadiaSettings =
  cs_globals :: addr
  cs_baseLayerProfile :: addr
  cs_allProfiles :: "addr list"
  cs_activeProfiles :: "addr list"
  cs_warnings :: "SettingsLoadWarnings list"
  cs_loadError :: "SettingsLoadErrors option"
  cs_deserializationErrorMessage :: string
  cs_currentDefaultTerminal :: "nat option"

text \<open>How an operation of the container can end without a result: with the exception
  \<^verbatim>\<open>SettingsException\<close>, with an index out of bounds, with an invalid argument, with the use
  of a null reference, or not at all (a getter that walks a cyclic parent list never
  returns).\<close>

datatype Abort = LoadError SettingsLoadErrors | OutOfBounds | InvalidArg | NullReference | NoReturn

text \<open>The getter of a setting: the resolved value, or the built-in default.\<close>

definition Get :: "Env \<Rightarrow> Heap \<Rightarrow> SettingKey \<Rightarrow> addr \<Rightarrow> SettingValue option" where
  "Get env h k a =
     map_option (\<lambda>r. case r of Some v \<Rightarrow> v | None \<Rightarrow> DefaultValue env k) (Resolved h k a)"

text \<open>
  Modelled from the spec: the unfocused appearance, section 3: an optional sub-record
  that takes part in inheritance and is parented to the default appearance of the profile
  it belongs to. \<open>UnfocusedAppearance\<close> resolves the sub-record through the parents and
  gives it with the profile that owns it; a setting of the sub-record is its own explicit
  value, or else the value of the owner's default appearance.
\<close>

definition UnfocusedAppearance ::
  "Heap \<Rightarrow> addr \<Rightarrow> (addr \<times> (AppearanceKey \<Rightarrow> SettingValue option)) option option" where
  "UnfocusedAppearance h a = resolve h unfocused a"

definition Unfocused_Get ::
  "Env \<Rightarrow> Heap \<Rightarrow> AppearanceKey \<Rightarrow> addr \<times> (AppearanceKey \<Rightarrow> SettingValue option)
     \<Rightarrow> SettingValue option" where
  "Unfocused_Get env h k ou =
     (case ou of (owner, u) \<Rightarrow>
        (case u k of Some v \<Rightarrow> Some v | None \<Rightarrow> Get env h (AK k) owner))"

definition Set :: "SettingKey \<Rightarrow> SettingValue \<Rightarrow> addr \<Rightarrow> Heap \<Rightarrow> Heap" where
  "Set k v a h = upd_prof a (\<lambda>p. p\<lparr>explicit := (explicit p)(k \<mapsto> v)\<rparr>) h"

definition Clear :: "SettingKey \<Rightarrow> addr \<Rightarrow> Heap \<Rightarrow> Heap" where
  "Clear k a h = upd_prof a (\<lambda>p. p\<lparr>explicit := (explicit p)(k := None)\<rparr>) h"

definition Unfocused_Clear :: "AppearanceKey \<Rightarrow> addr \<Rightarrow> Heap \<Rightarrow> Heap" where
  "Unfocused_Clear k owner h =
     upd_prof owner (\<lambda>p. p\<lparr>unfocused := map_option (\<lambda>u. u(k := None)) (unfocused p)\<rparr>) h"

definition FindProfile :: "Env \<Rightarrow> Heap \<Rightarrow> CascadiaSettings \<Rightarrow> winrt_guid \<Rightarrow> addr option" where
  "FindProfile env h s g = find (\<lambda>a. Guid env (prof h a) = g) (cs_allProfiles s)"

definition getProfileGuidByName ::
  "Env \<Rightarrow> Heap \<Rightarrow> CascadiaSettings \<Rightarrow> string \<Rightarrow> winrt_guid option" where
  "getProfileGuidByName env h s nm =
     (let byName = map_option (\<lambda>a. Guid env (prof h a))
                     (find (\<lambda>a. name (prof h a) = nm) (cs_allProfiles s))
      in if nm \<noteq> [] then
           (if length nm = 38 \<and> hd nm = CHR ''{'' then
              (case GuidFromString env nm of
                 None \<Rightarrow> None
               | Some newGUID \<Rightarrow>
                   (case FindProfile env h s newGUID of Some found \<Rightarrow> Some newGUID | None \<Rightarrow> byName))
            else byName)
         else None)"

definition SetDefaultProfile :: "Env \<Rightarrow> winrt_guid \<Rightarrow> GlobalAppSettings \<Rightarrow> GlobalAppSettings" where
  "SetDefaultProfile env g gs = gs\<lparr>defaultProfile := g, UnparsedDefaultProfile := GuidToString env g\<rparr>"

definition finalizeSettings :: "Env \<Rightarrow> Heap \<times> CascadiaSettings \<Rightarrow> Abort + Heap \<times> CascadiaSettings" where
  "finalizeSettings env st =
     (case st of (h, s) \<Rightarrow>
        (case (if UnparsedDefaultProfile (glob h (cs_globals s)) \<noteq> []
               then getProfileGuidByName env h s (UnparsedDefaultProfile (glob h (cs_globals s)))
               else None) of
           Some g \<Rightarrow> Inr (upd_glob (cs_globals s) (SetDefaultProfile env g) h, s)
         | None \<Rightarrow>
             (case cs_allProfiles s of
                [] \<Rightarrow> Inl OutOfBounds
              | first # others \<Rightarrow>
                  Inr (upd_glob (cs_globals s) (SetDefaultProfile env (Guid env (prof h first))) h,
                       s\<lparr>cs_warnings := cs_warnings s @ [MissingDefaultProfile]\<rparr>))))"

text \<open>Sequencing of steps that may end without a result.\<close>

definition andThen :: "Abort + 'a \<Rightarrow> ('a \<Rightarrow> Abort + 'b) \<Rightarrow> Abort + 'b" where
  "andThen r f = (case r of Inl e \<Rightarrow> Inl e | Inr x \<Rightarrow> f x)"

fun forEach :: "('x \<Rightarrow> 's \<Rightarrow> Abort + 's) \<Rightarrow> 'x list \<Rightarrow> 's \<Rightarrow> Abort + 's" where
  "forEach body [] st = Inr st"
| "forEach body (x # xs) st = andThen (body x st) (forEach body xs)"

text \<open>The body of the loop of \<^verbatim>\<open>_validateAllSchemesExist\<close>, in its two parts: the default
  appearance of the profile, then its unfocused appearance if it has one. The second
  component of the state is \<^verbatim>\<open>foundInvalidScheme\<close>.\<close>

definition checkDefaultScheme :: "Env \<Rightarrow> addr \<Rightarrow> addr \<Rightarrow> Heap \<times> bool \<Rightarrow> Abort + Heap \<times> bool" where
  "checkDefaultScheme env g profile st =
     (case st of (h, foundInvalidScheme) \<Rightarrow>
        (case Get env h (AK ColorSchemeName) profile of
           None \<Rightarrow> Inl NoReturn
         | Some schemeName \<Rightarrow>
             if colorSchemes (glob h g) schemeName = None
             then Inr (Clear (AK ColorSchemeName) profile h, True)
             else Inr (h, foundInvalidScheme)))"

definition checkUnfocusedScheme :: "Env \<Rightarrow> addr \<Rightarrow> addr \<Rightarrow> Heap \<times> bool \<Rightarrow> Abort + Heap \<times> bool" where
  "checkUnfocusedScheme env g profile st =
     (case st of (h, foundInvalidScheme) \<Rightarrow>
        (case UnfocusedAppearance h profile of
           None \<Rightarrow> Inl NoReturn
         | Some None \<Rightarrow> Inr (h, foundInvalidScheme)
         | Some (Some ou) \<Rightarrow>
             (case Unfocused_Get env h ColorSchemeName ou of
                None \<Rightarrow> Inl NoReturn
              | Some unfocusedSchemeName \<Rightarrow>
                  if colorSchemes (glob h g) unfocusedSchemeName = None
                  then Inr (Unfocused_Clear ColorSchemeName (fst ou) h, True)
                  else Inr (h, foundInvalidScheme))))"

definition validateSchemesOf :: "Env \<Rightarrow> addr \<Rightarrow> addr \<Rightarrow> Heap \<times> bool \<Rightarrow> Abort + Heap \<times> bool" where
  "validateSchemesOf env g profile st =
     andThen (checkDefaultScheme env g profile st) (checkUnfocusedScheme env g profile)"

definition validateAllSchemesExist :: "Env \<Rightarrow> Heap \<times> CascadiaSettings \<Rightarrow> Abort + Heap \<times> CascadiaSettings" where
  "validateAllSchemesExist env st =
     (case st of (h, s) \<Rightarrow>
        (case forEach (validateSchemesOf env (cs_globals s)) (cs_allProfiles s) (h, False) of
           Inl e \<Rightarrow> Inl e
         | Inr (h1, foundInvalidScheme) \<Rightarrow>
             Inr (h1, if foundInvalidScheme
                      then s\<lparr>cs_warnings := cs_warnings s @ [UnknownColorScheme]\<rparr> else s)))"

text \<open>The body of the loop of \<^verbatim>\<open>_validateMediaResources\<close>, in its three parts: the background
  image of the default appearance, that of the unfocused appearance, and the icon. The
  flags are \<^verbatim>\<open>invalidBackground\<close> and \<^verbatim>\<open>invalidIcon\<close>.\<close>

definition checkBackground :: "Env \<Rightarrow> addr \<Rightarrow> Heap \<times> bool \<times> bool \<Rightarrow> Abort + Heap \<times> bool \<times> bool" where
  "checkBackground env profile st =
     (case st of (h, invalidBackground, invalidIcon) \<Rightarrow>
        (case Get env h (AK BackgroundImagePath) profile of
           None \<Rightarrow> Inl NoReturn
         | Some path \<Rightarrow>
             if path \<noteq> [] \<and> \<not> Uri_valid env (ExpandBackgroundImagePath env path)
             then Inr (Clear (AK BackgroundImagePath) profile h, True, invalidIcon)
             else Inr (h, invalidBackground, invalidIcon)))"

definition checkUnfocusedBackground ::
  "Env \<Rightarrow> addr \<Rightarrow> Heap \<times> bool \<times> bool \<Rightarrow> Abort + Heap \<times> bool \<times> bool" where
  "checkUnfocusedBackground env profile st =
     (case st of (h, invalidBackground, invalidIcon) \<Rightarrow>
        (case UnfocusedAppearance h profile of
           None \<Rightarrow> Inl NoReturn
         | Some None \<Rightarrow> Inr (h, invalidBackground, invalidIcon)
         | Some (Some ou) \<Rightarrow>
             (case Unfocused_Get env h BackgroundImagePath ou of
                None \<Rightarrow> Inl NoReturn
              | Some path \<Rightarrow>
                  if path \<noteq> [] \<and> \<not> Uri_valid env (ExpandBackgroundImagePath env path)
                  then Inr (Unfocused_Clear BackgroundImagePath (fst ou) h, True, invalidIcon)
                  else Inr (h, invalidBackground, invalidIcon))))"

definition checkIcon :: "Env \<Rightarrow> addr \<Rightarrow> Heap \<times> bool \<times> bool \<Rightarrow> Abort + Heap \<times> bool \<times> bool" where
  "checkIcon env profile st =
     (case st of (h, invalidBackground, invalidIcon) \<Rightarrow>
        (case Get env h (PK Icon) profile of
           None \<Rightarrow> Inl NoReturn
         | Some icon \<Rightarrow>
             if icon \<noteq> [] \<and> \<not> Uri_valid env (ExpandEnvironmentStrings env icon)
                \<and> length (ExpandEnvironmentStrings env icon) > 2
             then Inr (Set (PK Icon) [] profile h, invalidBackground, True)
             else Inr (h, invalidBackground, invalidIcon)))"

definition validateMediaOf :: "Env \<Rightarrow> addr \<Rightarrow> Heap \<times> bool \<times> bool \<Rightarrow> Abort + Heap \<times> bool \<times> bool" where
  "validateMediaOf env profile st =
     andThen (andThen (checkBackground env profile st) (checkUnfocusedBackground env profile))
       (checkIcon env profile)"

definition validateMediaResources :: "Env \<Rightarrow> Heap \<times> CascadiaSettings \<Rightarrow> Abort + Heap \<times> CascadiaSettings" where
  "validateMediaResources env st =
     (case st of (h, s) \<Rightarrow>
        (case forEach (validateMediaOf env) (cs_allProfiles s) (h, False, False) of
           Inl e \<Rightarrow> Inl e
         | Inr (h1, invalidBackground, invalidIcon) \<Rightarrow>
             Inr (h1, s\<lparr>cs_warnings := cs_warnings s
                           @ (if invalidBackground then [InvalidBackgroundImage] else [])
                           @ (if invalidIcon then [InvalidIcon] else [])\<rparr>)))"

definition validateKeybindings :: "Heap \<times> CascadiaSettings \<Rightarrow> Heap \<times> CascadiaSettings" where
  "validateKeybindings st =
     (case st of (h, s) \<Rightarrow>
        if keybindingsWarnings (glob h (cs_globals s)) \<noteq> []
        then (h, s\<lparr>cs_warnings := cs_warnings s @ [AtLeastOneKeybindingWarning]
                                     @ keybindingsWarnings (glob h (cs_globals s))\<rparr>)
        else (h, s))"

fun hasInvalidColorScheme :: "(string \<Rightarrow> ColorScheme option) \<Rightarrow> Command \<Rightarrow> bool" where
  "hasInvalidColorScheme schemes (Command nested args iterateOnSchemes) =
     (if nested \<noteq> [] then list_ex (\<lambda>c. hasInvalidColorScheme schemes c) (map snd nested)
      else (case args of
              Some schemeName \<Rightarrow> \<not> iterateOnSchemes \<and> schemes schemeName = None
            | None \<Rightarrow> False))"

definition validateColorSchemesInCommands :: "Env \<Rightarrow> Heap \<times> CascadiaSettings \<Rightarrow> Heap \<times> CascadiaSettings" where
  "validateColorSchemesInCommands env st =
     (case st of (h, s) \<Rightarrow>
        if list_ex (\<lambda>nameAndCmd. hasInvalidColorScheme (colorSchemes (glob h (cs_globals s))) (snd nameAndCmd))
             (ActionMap_NameMap env h (cs_globals s))
        then (h, s\<lparr>cs_warnings := cs_warnings s @ [InvalidColorSchemeInCmd]\<rparr>)
        else (h, s))"

definition validateSettings :: "Env \<Rightarrow> Heap \<times> CascadiaSettings \<Rightarrow> Abort + Heap \<times> CascadiaSettings" where
  "validateSettings env st =
     (case validateAllSchemesExist env st of
        Inl e \<Rightarrow> Inl e
      | Inr st1 \<Rightarrow>
          (case validateMediaResources env st1 of
             Inl e \<Rightarrow> Inl e
           | Inr st2 \<Rightarrow> Inr (validateColorSchemesInCommands env (validateKeybindings st2))))"

text \<open>The constructor of the container from a finished loader.\<close>

definition CascadiaSettings_new :: "Env \<Rightarrow> Heap \<times> SettingsLoader \<Rightarrow> Abort + Heap \<times> CascadiaSettings" where
  "CascadiaSettings_new env st =
     (case st of (h, loader) \<Rightarrow>
        let allProfiles = profiles (userSettings loader);
            activeProfiles = filter (\<lambda>profile. \<not> hidden (prof h profile)) (profiles (userSettings loader))
        in if allProfiles = [] then Inl (LoadError NoProfiles)
           else if activeProfiles = [] then Inl (LoadError AllProfilesHidden)
           else (case finalizeSettings env
                        (h, \<lparr> cs_globals = globals (userSettings loader),
                               cs_baseLayerProfile = baseLayerProfile (userSettings loader),
                               cs_allProfiles = allProfiles,
                               cs_activeProfiles = activeProfiles,
                               cs_warnings = warnings loader,
                               cs_loadError = None,
                               cs_deserializationErrorMessage = [],
                               cs_currentDefaultTerminal = None \<rparr>) of
                   Inl e \<Rightarrow> Inl e
                 | Inr st1 \<Rightarrow> validateSettings env st1))"

text \<open>Two heaps with the same profiles up to the explicit settings and the contents of the
  unfocused appearances: identity, flags and parent lists agree, and a profile has an
  unfocused appearance in one heap exactly if it has one in the other.\<close>

definition sameSkeleton :: "Heap \<Rightarrow> Heap \<Rightarrow> bool" where
  "sameSkeleton h h' =
     (length (profs h') = length (profs h)
      \<and> (\<forall>a<length (profs h).
            origin (prof h' a) = origin (prof h a) \<and> name (prof h' a) = name (prof h a)
            \<and> guid (prof h' a) = guid (prof h a) \<and> hidden (prof h' a) = hidden (prof h a)
            \<and> deleted (prof h' a) = deleted (prof h a) \<and> source (prof h' a) = source (prof h a)
            \<and> updates (prof h' a) = updates (prof h a) \<and> parents (prof h' a) = parents (prof h a)
            \<and> (unfocused (prof h' a) = None) = (unfocused (prof h a) = None)))"

text \<open>The parent lists of a heap are acyclic (and stay inside the heap) exactly if the
  profiles can be ranked so that every parent ranks below its child; the ranks can then be
  taken below the number of profiles.\<close>

definition ranked :: "Heap \<Rightarrow> (addr \<Rightarrow> nat) \<Rightarrow> bool" where
  "ranked h d =
     (\<forall>a<length (profs h).
        d a < length (profs h)
        \<and> (\<forall>p\<in>set (parents (prof h a)). p < length (profs h) \<and> d p < d a))"

definition allHiddenHeap :: Heap where
  "allHiddenHeap = stage6Heap\<lparr>profs := map (\<lambda>p. p\<lparr>hidden := True\<rparr>) (profs stage6Heap)\<rparr>"



text \<open>The explicit colour scheme name of the unfocused appearance that a profile owns.\<close>

definition unfocusedScheme :: "Heap \<Rightarrow> addr \<Rightarrow> SettingValue option" where
  "unfocusedScheme h ow = (case unfocused (prof h ow) of Some u \<Rightarrow> u ColorSchemeName | None \<Rightarrow> None)"




text \<open>What \<^verbatim>\<open>_FinalizeInheritance\<close> makes of a global-settings record, given the records of
  its parents in list order.\<close>

definition finalizedGlobals ::
  "GlobalAppSettings \<Rightarrow> (addr \<times> GlobalAppSettings) list \<Rightarrow> GlobalAppSettings" where
  "finalizedGlobals g ps =
     g\<lparr>actionMapParents := actionMapParents g @ map fst ps,
       keybindingsWarnings := keybindingsWarnings g @ concat (map (\<lambda>p. keybindingsWarnings (snd p)) ps),
       colorSchemes := foldl (\<lambda>m p. m ++ colorSchemes (snd p)) (colorSchemes g) ps\<rparr>"

text \<open>A loader before \<^verbatim>\<open>FinalizeLayering\<close>: the inbox profile at address 0 sets the command
  line, the user profile at address 1 has it as its parent and sets nothing, and the user's
  \<open>profiles.defaults\<close> at address 3 sets the command line too. The inbox globals know one
  colour scheme.\<close>

definition layerHeap :: Heap where
  "layerHeap = \<lparr> profs =
       [(sampleProfile 1 ''shell'' [])\<lparr>origin := InBox, explicit := [PK Commandline \<mapsto> ''inbox.exe'']\<rparr>,
        sampleProfile 1 ''shell'' [0],
        make_Profile\<lparr>origin := ProfilesDefaults\<rparr>,
        make_Profile\<lparr>origin := ProfilesDefaults, explicit := [PK Commandline \<mapsto> ''defaults.exe'']\<rparr>],
     globs = [make_Globals\<lparr>colorSchemes :=
                 [''Campbell'' \<mapsto> \<lparr>scheme_name = ''Campbell'', scheme_table = []\<rparr>]\<rparr>,
              make_Globals] \<rparr>"

definition layerLoader :: SettingsLoader where
  "layerLoader = \<lparr> inboxSettings = \<lparr> globals = 0, baseLayerProfile = 2, profiles = [0],
                                      profilesByGuid = [1 \<mapsto> 0] \<rparr>,
       userSettings = \<lparr> globals = 1, baseLayerProfile = 3, profiles = [1],
                        profilesByGuid = [1 \<mapsto> 1] \<rparr>,
       warnings = [], ignoredNamespaces = {}, userProfileCount = 1 \<rparr>"

section \<open>Fragments\<close>

text \<open>A fragment source as the enumeration of the fragment folders and of the app extensions
  gives it: its namespace (folder name or package family name), whether it has a fragment
  directory, and the files of that directory. A file has its extension and its content;
  the content is \<open>None\<close> when reading the file or parsing its JSON text throws.\<close>

record FragmentFile =
  ff_extension :: string
  ff_content :: "Json option"

record FragmentSource =
  fs_namespace :: string
  fs_is_directory :: bool
  fs_files :: "FragmentFile list"

definition jsonExtension :: string where "jsonExtension = ''.json''"

definition SetSource :: "string \<Rightarrow> addr \<Rightarrow> Heap \<Rightarrow> Heap" where
  "SetSource src a h = upd_prof a (\<lambda>p. p\<lparr>source := src\<rparr>) h"

text \<open>The loop over the profiles of one fragment document.\<close>

fun mergeFragmentProfiles ::
  "Env \<Rightarrow> string \<Rightarrow> addr list \<Rightarrow> Heap \<times> SettingsLoadWarnings list \<times> ParsedSettings
     \<Rightarrow> Heap \<times> SettingsLoadWarnings list \<times> ParsedSettings" where
  "mergeFragmentProfiles env src [] st = st"
| "mergeFragmentProfiles env src (fragmentProfile # rest) (h, ws, user) =
     (if updates (prof h fragmentProfile) \<noteq> 0 then
        (case profilesByGuid user (updates (prof h fragmentProfile)) of
           Some target \<Rightarrow>
             mergeFragmentProfiles env src rest
               (InsertParentAt target 0 fragmentProfile (SetSource src fragmentProfile h), ws, user)
         | None \<Rightarrow> mergeFragmentProfiles env src rest (h, ws, user))
      else
        (case ReproduceProfile env fragmentProfile (SetSource src fragmentProfile h) of
           (child, h2) \<Rightarrow>
             (case appendProfile env h2 child (ws, user) of
                (ws1, user1) \<Rightarrow> mergeFragmentProfiles env src rest (h2, ws1, user1))))"

text \<open>One fragment document: parse it, layer its profiles, and add its colour schemes to the
  user globals (every entry of a colour-scheme map is stored under the name of its scheme,
  so inserting the values one by one is the right-biased union of the maps). An exception
  ends the document and is logged; what was written before it stays.\<close>

definition layerFragmentDocument ::
  "Env \<Rightarrow> string \<Rightarrow> FragmentFile \<Rightarrow> Heap \<times> SettingsLoader \<Rightarrow> Heap \<times> SettingsLoader" where
  "layerFragmentDocument env src file st =
     (case st of (h, loader) \<Rightarrow>
        if ff_extension file = jsonExtension then
          (case ff_content file of
             None \<Rightarrow> (h, loader)
           | Some content \<Rightarrow>
               (case parse env Fragment content (h, warnings loader) of
                  (Inl e, h1, ws1) \<Rightarrow> (h1, loader\<lparr>warnings := ws1\<rparr>)
                | (Inr fragmentSettings, h1, ws1) \<Rightarrow>
                    (case mergeFragmentProfiles env src (profiles fragmentSettings)
                            (h1, ws1, userSettings loader) of
                       (h2, ws2, user2) \<Rightarrow>
                         (upd_glob (globals user2)
                            (\<lambda>g. g\<lparr>colorSchemes :=
                                     colorSchemes g ++ colorSchemes (glob h2 (globals fragmentSettings))\<rparr>)
                            h2,
                          loader\<lparr>warnings := ws2, userSettings := user2\<rparr>))))
        else (h, loader))"

definition parseAndLayerFragmentFiles ::
  "Env \<Rightarrow> FragmentSource \<Rightarrow> Heap \<times> SettingsLoader \<Rightarrow> Heap \<times> SettingsLoader" where
  "parseAndLayerFragmentFiles env fragmentSource st =
     fold (layerFragmentDocument env (fs_namespace fragmentSource)) (fs_files fragmentSource) st"

definition MergeFragmentsIntoUserProfiles ::
  "Env \<Rightarrow> FragmentSource list \<Rightarrow> Heap \<times> SettingsLoader \<Rightarrow> Heap \<times> SettingsLoader" where
  "MergeFragmentsIntoUserProfiles env fragmentSources st =
     fold (\<lambda>fragmentSource st1.
             if fs_namespace fragmentSource \<notin> ignoredNamespaces (snd st1)
                \<and> fs_is_directory fragmentSource
             then parseAndLayerFragmentFiles env fragmentSource st1 else st1)
          fragmentSources st"

text \<open>A heap for the fragment merge: an inbox profile (address 0) that sets command line and
  icon, the user's profile of the same GUID (address 1) that sets the icon, and three
  fragment profiles: one that updates GUID 1 and sets command line and icon (address 2),
  one that updates a GUID nobody has (address 3), and one without \<open>updates\<close> (address 4); the user's base-layer profile is at address 5.\<close>

definition fragmentHeap :: Heap where
  "fragmentHeap = \<lparr> profs =
       [(sampleProfile 1 ''shell'' [])\<lparr>origin := InBox,
           explicit := [PK Commandline \<mapsto> ''inbox.exe'', PK Icon \<mapsto> ''inbox.ico'']\<rparr>,
        (sampleProfile 1 ''shell'' [0])\<lparr>explicit := [PK Icon \<mapsto> ''user.ico'']\<rparr>,
        (sampleProfile 5 ''patch'' [])\<lparr>origin := Fragment, updates := 1,
           explicit := [PK Commandline \<mapsto> ''fragment.exe'', PK Icon \<mapsto> ''fragment.ico'']\<rparr>,
        (sampleProfile 6 ''stray patch'' [])\<lparr>origin := Fragment, updates := 9\<rparr>,
        (sampleProfile 8 ''new shell'' [])\<lparr>origin := Fragment\<rparr>,
        make_Profile\<lparr>origin := ProfilesDefaults\<rparr>],
     globs = [make_Globals, make_Globals] \<rparr>"

definition fragmentUser :: ParsedSettings where
  "fragmentUser = \<lparr> globals = 1, baseLayerProfile = 5, profiles = [1], profilesByGuid = [1 \<mapsto> 1] \<rparr>"

section \<open>Creating and duplicating profiles\<close>

text \<open>Decimal digits of a number, as \<^verbatim>\<open>fmt::format\<close> prints an unsigned integer.\<close>

fun decimal :: "nat \<Rightarrow> string" where
  "decimal n = (if n < 10 then [''0123456789'' ! n]
                else decimal (n div 10) @ [''0123456789'' ! (n mod 10)])"

declare decimal.simps [simp del]

text \<open>The loop of \<^verbatim>\<open>DuplicateProfile\<close> that looks for a name no profile has yet.
  \<open>count\<close> and \<open>candidateIndex\<close> are 32-bit unsigned; inside the loop
  \<open>candidateIndex < count\<close>, so the increment cannot wrap, and the number printed into the
  name is \<open>candidateIndex + 2\<close> modulo \<open>2 ^ 32\<close>.\<close>

function duplicateName :: "Env \<Rightarrow> string \<Rightarrow> string list \<Rightarrow> nat \<Rightarrow> nat \<Rightarrow> string \<Rightarrow> string" where
  "duplicateName env sourceName names count candidateIndex newName =
     (if candidateIndex < count then
        (if newName \<notin> set names then newName
         else duplicateName env sourceName names count (candidateIndex + 1)
                (sourceName @ '' ('' @ CopySuffix env @ '' ''
                   @ decimal ((candidateIndex + 2) mod 2 ^ 32) @ '')''))
      else newName)"
  by pat_completeness auto
termination
  by (relation "measure (\<lambda>(env, sourceName, names, count, candidateIndex, newName). count - candidateIndex)")
     auto

declare duplicateName.simps [simp del]

text \<open>\<^verbatim>\<open>_createNewProfile\<close>: a child of the base-layer profile with the given name and a GUID
  of its own (the result of \<^verbatim>\<open>CoCreateGuid\<close>, here an argument).\<close>

definition createNewProfile ::
  "Env \<Rightarrow> winrt_guid \<Rightarrow> string \<Rightarrow> Heap \<times> CascadiaSettings \<Rightarrow> addr \<times> Heap" where
  "createNewProfile env newGuid nm st =
     (case st of (h, s) \<Rightarrow>
        (case ReproduceProfile env (cs_baseLayerProfile s) h of
           (profile, h1) \<Rightarrow>
             (profile, upd_prof profile (\<lambda>p. p\<lparr>guid := Some newGuid, name := nm\<rparr>) h1)))"

text \<open>The lambda \<^verbatim>\<open>isProfilesDefaultsOrigin\<close> of \<^verbatim>\<open>DuplicateProfile\<close>: despite its name it
  holds of a profile that exists and does \<^emph>\<open>not\<close> come from \<^verbatim>\<open>profiles.defaults\<close>. A font or
  appearance sub-object is represented by the profile that owns it, so
  \<^verbatim>\<open>isProfilesDefaultsOriginSub\<close> is the same test.\<close>

definition isProfilesDefaultsOrigin :: "Heap \<Rightarrow> addr option \<Rightarrow> bool" where
  "isProfilesDefaultsOrigin h profile =
     (case profile of None \<Rightarrow> False | Some a \<Rightarrow> origin (prof h a) \<noteq> ProfilesDefaults)"

text \<open>\<^verbatim>\<open>NEEDS_DUPLICATION\<close>: the source sets the setting itself, or inherits it from a profile
  other than \<^verbatim>\<open>profiles.defaults\<close>. The second test is evaluated only if the first fails.\<close>

definition NEEDS_DUPLICATION :: "Heap \<Rightarrow> SettingKey \<Rightarrow> addr \<Rightarrow> Abort + bool" where
  "NEEDS_DUPLICATION h k src =
     (if Has h k src then Inr True
      else (case OverrideSource h k src of
              None \<Rightarrow> Inl NoReturn
            | Some overrideSource \<Rightarrow> Inr (isProfilesDefaultsOrigin h overrideSource)))"

definition DUPLICATE_SETTING_MACRO :: "Env \<Rightarrow> addr \<Rightarrow> addr \<Rightarrow> SettingKey \<Rightarrow> Heap \<Rightarrow> Abort + Heap" where
  "DUPLICATE_SETTING_MACRO env src duplicated k h =
     andThen (NEEDS_DUPLICATION h k src)
       (\<lambda>needed. if needed then
                    (case Get env h k src of
                       None \<Rightarrow> Inl NoReturn
                     | Some v \<Rightarrow> Inr (Set k v duplicated h))
                  else Inr h)"

text \<open>The settings that \<^verbatim>\<open>DuplicateProfile\<close> duplicates, in the order of the code. \<open>Hidden\<close>
  is not among them.\<close>

definition duplicatedSettings :: "SettingKey list" where
  "duplicatedSettings =
     map PK [Icon, CloseOnExit, TabTitle, TabColor, SuppressApplicationTitle, UseAcrylic,
             AcrylicOpacity, ScrollState, Padding, Commandline, StartingDirectory,
             AntialiasingMode, ForceFullRepaintRendering, SoftwareRendering, HistorySize,
             SnapOnInput, AltGrAliasing, BellStyle]
     @ map FK [FontFace, FontSize, FontWeight, FontFeatures, FontAxes]
     @ map AK [ColorSchemeName, Foreground, Background, SelectionBackground, CursorColor,
               PixelShaderPath, IntenseTextStyle, BackgroundImagePath, BackgroundImageOpacity,
               BackgroundImageStretchMode, BackgroundImageAlignment, RetroTerminalEffect,
               CursorShape, CursorHeight]"

text \<open>The unfocused appearance is duplicated as one setting: if needed, a copy of the
  source's resolved unfocused appearance becomes the duplicate's own (so that it is parented
  to the duplicate's default appearance). The copy dereferences what the getter returned.\<close>

definition duplicateUnfocusedAppearance :: "addr \<Rightarrow> addr \<Rightarrow> Heap \<Rightarrow> Abort + Heap" where
  "duplicateUnfocusedAppearance src duplicated h =
     andThen
       (if unfocused (prof h src) \<noteq> None then Inr True
        else (case getFromParents (length (profs h) - 1) h unfocused (parents (prof h src)) of
                None \<Rightarrow> Inl NoReturn
              | Some overrideSource \<Rightarrow>
                  Inr (isProfilesDefaultsOrigin h (map_option fst overrideSource))))
       (\<lambda>needed. if needed then
                    (case UnfocusedAppearance h src of
                       None \<Rightarrow> Inl NoReturn
                     | Some None \<Rightarrow> Inl NullReference
                     | Some (Some (owner, u)) \<Rightarrow>
                         Inr (upd_prof duplicated (\<lambda>p. p\<lparr>unfocused := Some u\<rparr>) h))
                  else Inr h)"

definition duplicateConnectionType :: "Env \<Rightarrow> addr \<Rightarrow> addr \<Rightarrow> Heap \<Rightarrow> Abort + Heap" where
  "duplicateConnectionType env src duplicated h =
     (if Has h (PK ConnectionType) src then
        (case Get env h (PK ConnectionType) src of
           None \<Rightarrow> Inl NoReturn
         | Some v \<Rightarrow> Inr (Set (PK ConnectionType) v duplicated h))
      else Inr h)"

text \<open>\<^verbatim>\<open>DuplicateProfile\<close>. The argument is \<open>None\<close> for a null reference. The result is the
  new profile, with the heap and the container after the call.\<close>

definition CascadiaSettings_DuplicateProfile ::
  "Env \<Rightarrow> winrt_guid \<Rightarrow> addr option \<Rightarrow> Heap \<times> CascadiaSettings
     \<Rightarrow> Abort + addr \<times> Heap \<times> CascadiaSettings" where
  "CascadiaSettings_DuplicateProfile env newGuid sourceProfile st =
     (case st of (h, s) \<Rightarrow>
        (case sourceProfile of
           None \<Rightarrow> Inl InvalidArg
         | Some src \<Rightarrow>
             (let newName =
                    duplicateName env (name (prof h src))
                      (map (\<lambda>a. name (prof h a)) (cs_allProfiles s))
                      ((length (cs_allProfiles s) + 1) mod 2 ^ 32) 0
                      (name (prof h src) @ '' ('' @ CopySuffix env @ '')'')
              in (case createNewProfile env newGuid newName (h, s) of
                    (duplicated, h1) \<Rightarrow>
                      andThen (forEach (DUPLICATE_SETTING_MACRO env src duplicated)
                                 duplicatedSettings h1)
                        (\<lambda>h2. andThen (duplicateUnfocusedAppearance src duplicated h2)
                          (\<lambda>h3. andThen (duplicateConnectionType env src duplicated h3)
                            (\<lambda>h4. Inr (duplicated, h4,
                                     s\<lparr>cs_allProfiles := cs_allProfiles s @ [duplicated],
                                       cs_activeProfiles := cs_activeProfiles s @ [duplicated]\<rparr>))))))))"

text \<open>Two heaps differ only in the settings of one profile: its explicit values and its
  unfocused appearance.\<close>

definition differOnlyInSettingsOf :: "addr \<Rightarrow> Heap \<Rightarrow> Heap \<Rightarrow> bool" where
  "differOnlyInSettingsOf d h h' =
     (length (profs h') = length (profs h) \<and> globs h' = globs h
      \<and> (\<forall>a<length (profs h). a \<noteq> d \<longrightarrow> prof h' a = prof h a)
      \<and> origin (prof h' d) = origin (prof h d) \<and> name (prof h' d) = name (prof h d)
      \<and> guid (prof h' d) = guid (prof h d) \<and> hidden (prof h' d) = hidden (prof h d)
      \<and> deleted (prof h' d) = deleted (prof h d) \<and> source (prof h' d) = source (prof h d)
      \<and> updates (prof h' d) = updates (prof h d) \<and> parents (prof h' d) = parents (prof h d))"

text \<open>A container for duplication: the user's defaults (address 0) set the padding, an inbox
  profile (address 1) sets the command line, and the user's profile (address 2) is hidden,
  sets its icon and inherits from both. In the second heap the defaults are hidden too.\<close>

definition duplicateHeap :: Heap where
  "duplicateHeap = \<lparr> profs =
       [make_Profile\<lparr>origin := ProfilesDefaults, explicit := [PK Padding \<mapsto> ''8'']\<rparr>,
        (sampleProfile 1 ''shell'' [])\<lparr>origin := InBox,
           explicit := [PK Commandline \<mapsto> ''inbox.exe'']\<rparr>,
        (sampleProfile 1 ''shell'' [0, 1])\<lparr>hidden := True, explicit := [PK Icon \<mapsto> ''user.ico'']\<rparr>],
     globs = [make_Globals] \<rparr>"

definition hiddenDefaultsHeap :: Heap where
  "hiddenDefaultsHeap = upd_prof 0 (\<lambda>p. p\<lparr>hidden := True\<rparr>) duplicateHeap"

definition duplicateSettings :: CascadiaSettings where
  "duplicateSettings = \<lparr> cs_globals = 0, cs_baseLayerProfile = 0, cs_allProfiles = [2],
     cs_activeProfiles = [], cs_warnings = [], cs_loadError = None,
     cs_deserializationErrorMessage = [], cs_currentDefaultTerminal = None \<rparr>"

section \<open>Copying the container\<close>

text \<open>
  Modelled from the spec: the graph-preserving deep copy of the inheritance template,
  section 4.1. \<open>CopyInterned\<close> returns the cached clone of a node that the \<open>visited\<close> map
  knows; otherwise it clones the value fields of the node, enters the clone into the map
  \<^emph>\<open>before\<close> it recurses into the parents, and attaches the clone of every parent, in order,
  to the clone. The first argument bounds the depth of the recursion: \<open>None\<close> says that the
  recursion went deeper. \<open>CopyInheritanceGraph\<close> interns every profile of a list and appends
  the clones to the target list.
\<close>

type_synonym Visited = "addr \<Rightarrow> addr option"

definition CopySettings :: "Profile \<Rightarrow> Profile" where
  "CopySettings p = p\<lparr>parents := []\<rparr>"

fun CopyInterned :: "nat \<Rightarrow> addr \<Rightarrow> Heap \<times> Visited \<Rightarrow> (addr \<times> Heap \<times> Visited) option"
and copyParents :: "nat \<Rightarrow> addr \<Rightarrow> addr list \<Rightarrow> Heap \<times> Visited \<Rightarrow> (Heap \<times> Visited) option"
where
  "CopyInterned 0 node st = None"
| "CopyInterned (Suc n) node (h, visited) =
     (case visited node of
        Some clone \<Rightarrow> Some (clone, h, visited)
      | None \<Rightarrow>
          (case alloc_Profile (CopySettings (prof h node)) h of
             (clone, h1) \<Rightarrow>
               map_option (Pair clone)
                 (copyParents n clone (parents (prof h node)) (h1, visited(node \<mapsto> clone)))))"
| "copyParents n clone [] st = Some st"
| "copyParents n clone (parent # rest) st =
     (case CopyInterned n parent st of
        None \<Rightarrow> None
      | Some (parentClone, h1, visited1) \<Rightarrow>
          copyParents n clone rest (InsertParent clone parentClone h1, visited1))"

fun CopyInheritanceGraph ::
  "nat \<Rightarrow> addr list \<Rightarrow> addr list \<times> Heap \<times> Visited \<Rightarrow> (addr list \<times> Heap \<times> Visited) option" where
  "CopyInheritanceGraph n [] st = Some st"
| "CopyInheritanceGraph n (sourceProfile # rest) (targetProfiles, h, visited) =
     (case CopyInterned n sourceProfile (h, visited) of
        None \<Rightarrow> None
      | Some (clone, h1, visited1) \<Rightarrow>
          CopyInheritanceGraph n rest (targetProfiles @ [clone], h1, visited1))"

text \<open>\<^verbatim>\<open>GlobalAppSettings::Copy\<close>: a new object with the fields of the source, and a copy of
  every parent as its parent. Nothing is interned here, and the recursion follows the
  parent lists; the first argument bounds its depth. (The copy of the action map is made by
  \<^verbatim>\<open>ActionMap::Copy\<close>, outside the sources; the field is carried over.)\<close>

fun Globals_Copy :: "nat \<Rightarrow> addr \<Rightarrow> Heap \<Rightarrow> (addr \<times> Heap) option"
and copyGlobalsParents :: "nat \<Rightarrow> addr \<Rightarrow> addr list \<Rightarrow> Heap \<Rightarrow> Heap option"
where
  "Globals_Copy 0 a h = None"
| "Globals_Copy (Suc n) a h =
     (case alloc_Globals ((glob h a)\<lparr>gparents := []\<rparr>) h of
        (newGlobals, h1) \<Rightarrow>
          map_option (Pair newGlobals) (copyGlobalsParents n newGlobals (gparents (glob h a)) h1))"
| "copyGlobalsParents n newGlobals [] h = Some h"
| "copyGlobalsParents n newGlobals (parent # rest) h =
     (case Globals_Copy n parent h of
        None \<Rightarrow> None
      | Some (parentCopy, h1) \<Rightarrow>
          copyGlobalsParents n newGlobals rest (Globals_InsertParent newGlobals parentCopy h1))"

text \<open>\<^verbatim>\<open>CascadiaSettings::Copy\<close>: the base-layer profile is interned first, then the graph of
  all profiles with the same \<open>visited\<close> map; the clones that are not hidden are the active
  profiles; the globals are copied, and the remaining fields are carried over. The result
  is \<open>None\<close> if a recursion does not come back within the depth that a heap of this size
  allows: one more than the number of profiles for the interned copy (every level below the
  first enters a new profile into the map), the number of global-settings objects for the
  copy of the globals.\<close>

definition Copy :: "Heap \<times> CascadiaSettings \<Rightarrow> (Heap \<times> CascadiaSettings) option" where
  "Copy st =
     (case st of (h, s) \<Rightarrow>
        (case CopyInterned (Suc (length (profs h))) (cs_baseLayerProfile s) (h, Map.empty) of
           None \<Rightarrow> None
         | Some (base, h1, visited1) \<Rightarrow>
             (case CopyInheritanceGraph (Suc (length (profs h))) (cs_allProfiles s)
                     ([], h1, visited1) of
                None \<Rightarrow> None
              | Some (targetProfiles, h2, visited2) \<Rightarrow>
                  (case Globals_Copy (length (globs h)) (cs_globals s) h2 of
                     None \<Rightarrow> None
                   | Some (globalsCopy, h3) \<Rightarrow>
                       Some (h3,
                             \<lparr> cs_globals = globalsCopy,
                               cs_baseLayerProfile = base,
                               cs_allProfiles = targetProfiles,
                               cs_activeProfiles = filter (\<lambda>a. \<not> hidden (prof h3 a)) targetProfiles,
                               cs_warnings = cs_warnings s,
                               cs_loadError = cs_loadError s,
                               cs_deserializationErrorMessage = cs_deserializationErrorMessage s,
                               cs_currentDefaultTerminal = cs_currentDefaultTerminal s \<rparr>)))))"

text \<open>The parent lists of the global-settings objects are acyclic and stay inside the
  heap.\<close>

definition globalsRanked :: "Heap \<Rightarrow> (addr \<Rightarrow> nat) \<Rightarrow> bool" where
  "globalsRanked h d =
     (\<forall>a<length (globs h).
        d a < length (globs h)
        \<and> (\<forall>p\<in>set (gparents (glob h a)). p < length (globs h) \<and> d p < d a))"

text \<open>The state of an interned copy of the heap \<open>h0\<close>: the profiles of \<open>h0\<close> are still
  where they were, and the \<open>visited\<close> map is a one-to-one correspondence between the
  profiles visited so far and the cells added to the heap.\<close>

definition copyInv :: "Heap \<Rightarrow> Heap \<times> Visited \<Rightarrow> bool" where
  "copyInv h0 st =
     (case st of (h, v) \<Rightarrow>
        length (profs h0) \<le> length (profs h)
        \<and> (\<forall>a<length (profs h0). prof h a = prof h0 a)
        \<and> (\<forall>a c. v a = Some c \<longrightarrow> a < length (profs h0) \<and> length (profs h0) \<le> c \<and> c < length (profs h))
        \<and> (\<forall>a b c. v a = Some c \<longrightarrow> v b = Some c \<longrightarrow> a = b)
        \<and> (\<forall>c. length (profs h0) \<le> c \<longrightarrow> c < length (profs h) \<longrightarrow> (\<exists>a. v a = Some c)))"

text \<open>The clone \<open>c\<close> of the profile \<open>a\<close> is complete: it has the fields of \<open>a\<close>, and its
  parents are the clones of the parents of \<open>a\<close>, in the same order.\<close>

definition complete :: "Heap \<Rightarrow> Heap \<times> Visited \<Rightarrow> addr \<Rightarrow> addr \<Rightarrow> bool" where
  "complete h0 st a c =
     (case st of (h, v) \<Rightarrow>
        prof h c = (prof h0 a)\<lparr>parents := map (\<lambda>p. the (v p)) (parents (prof h0 a))\<rparr>
        \<and> (\<forall>p\<in>set (parents (prof h0 a)). v p \<noteq> None))"

text \<open>What a step of the interned copy does to the state: it keeps the invariant and what
  was in the heap and in the map, and completes the clones of the profiles that it
  visits.\<close>

definition copyPost :: "Heap \<Rightarrow> Heap \<times> Visited \<Rightarrow> Heap \<times> Visited \<Rightarrow> bool" where
  "copyPost h0 st st' =
     (case st of (h, v) \<Rightarrow> case st' of (h', v') \<Rightarrow>
        copyInv h0 (h', v')
        \<and> (\<forall>a c. v a = Some c \<longrightarrow> v' a = Some c)
        \<and> length (profs h) \<le> length (profs h')
        \<and> (\<forall>a<length (profs h). prof h' a = prof h a)
        \<and> globs h' = globs h
        \<and> (\<forall>a c. v a = None \<longrightarrow> v' a = Some c \<longrightarrow> complete h0 (h', v') a c))"

text \<open>A container to copy: the base-layer profile (address 0) is a parent of both profiles
  of the user (addresses 2 and 3); the first one also inherits from an inbox profile
  (address 1), the second one is hidden. The user globals inherit from the inbox globals.\<close>

definition copyHeap :: Heap where
  "copyHeap = \<lparr> profs =
       [make_Profile\<lparr>origin := ProfilesDefaults\<rparr>,
        (sampleProfile 1 ''shell'' [])\<lparr>origin := InBox\<rparr>,
        sampleProfile 1 ''shell'' [0, 1],
        (sampleProfile 2 ''other'' [0])\<lparr>hidden := True\<rparr>],
     globs = [make_Globals, make_Globals\<lparr>gparents := [0]\<rparr>] \<rparr>"

definition copySettings :: CascadiaSettings where
  "copySettings = \<lparr> cs_globals = 1, cs_baseLayerProfile = 0, cs_allProfiles = [2, 3],
     cs_activeProfiles = [2], cs_warnings = [], cs_loadError = None,
     cs_deserializationErrorMessage = [], cs_currentDefaultTerminal = None \<rparr>"

section \<open>Further sample data\<close>

text \<open>A loader after parsing, before the merges: the inbox list holds one profile (address
  0) that sets the command line; the user wrote no profile; a fragment profile (address 1)
  updates the GUID of the inbox profile and sets command line and icon. The base-layer
  profiles of inbox and user are at addresses 2 and 3.\<close>

definition staleIndexHeap :: Heap where
  "staleIndexHeap = \<lparr> profs =
       [(sampleProfile 1 ''shell'' [])\<lparr>origin := InBox,
           explicit := [PK Commandline \<mapsto> ''inbox.exe'']\<rparr>,
        (sampleProfile 5 ''patch'' [])\<lparr>origin := Fragment, updates := 1,
           explicit := [PK Commandline \<mapsto> ''fragment.exe'', PK Icon \<mapsto> ''fragment.ico'']\<rparr>,
        make_Profile\<lparr>origin := ProfilesDefaults\<rparr>,
        make_Profile\<lparr>origin := ProfilesDefaults\<rparr>],
     globs = [make_Globals, make_Globals] \<rparr>"

definition staleIndexLoader :: SettingsLoader where
  "staleIndexLoader = \<lparr> inboxSettings = (emptyParsedSettings 0 2)\<lparr>profiles := [0]\<rparr>,
       userSettings = emptyParsedSettings 1 3,
       warnings = [], ignoredNamespaces = {}, userProfileCount = 0 \<rparr>"




section \<open>Parsing: skipped entries and duplicate GUIDs\<close>

lemma parseProfiles_filter:
  "parseProfiles env tag (filter isValidProfileObject es) st = parseProfiles env tag es st"
  by (induction es arbitrary: st) (auto split: sum.splits prod.splits)

lemma appendProfile_heap_irrelevant:
  "a < length (profs h) \<Longrightarrow> profs h' = profs h @ extra \<Longrightarrow> appendProfile env h' a st = appendProfile env h a st"
proof -
  assume "a < length (profs h)" "profs h' = profs h @ extra"
  then have "prof h' a = prof h a" by (simp add: prof_def nth_append)
  then show ?thesis by (simp add: appendProfile_def split: prod.splits option.splits)
qed

lemma parseProfiles_heap:
  "parseProfiles env tag es (h, ws, s) = (None, h', ws', s') \<Longrightarrow>
   profs h' = profs h @ map (stamped env tag) (filter isValidProfileObject es) \<and> globs h' = globs h"
proof (induction es arbitrary: h ws s)
  case Nil then show ?case by simp
next
  case (Cons j es)
  show ?case
  proof (cases "isValidProfileObject j")
    case False
    with Cons show ?thesis by simp
  next
    case True
    with Cons.prems obtain p0 where p0: "Profile_FromJson env j = Inr p0"
      by (auto split: sum.splits)
    obtain ws1 s1 where ap: "appendProfile env (snd (alloc_Profile (stampProfile env tag p0) h)) (length (profs h)) (ws, s) = (ws1, s1)"
      by (cases "appendProfile env (snd (alloc_Profile (stampProfile env tag p0) h)) (length (profs h)) (ws, s)") auto
    from Cons.prems True p0 ap
    have "parseProfiles env tag es (snd (alloc_Profile (stampProfile env tag p0) h), ws1, s1) = (None, h', ws', s')"
      by (simp add: alloc_Profile_def)
    from Cons.IH[OF this] True p0 show ?thesis
      by (simp add: alloc_Profile_def stamped_def)
  qed
qed

lemma parseProfiles_append:
  "parseProfiles env tag es (h, ws, s) = (None, h', ws', s') \<Longrightarrow>
   (ws', s') = appendAll env h' [length (profs h) ..< length (profs h')] (ws, s)"
proof (induction es arbitrary: h ws s)
  case Nil then show ?case by (simp add: appendAll_def)
next
  case (Cons j es)
  show ?case
  proof (cases "isValidProfileObject j")
    case False
    with Cons show ?thesis by simp
  next
    case True
    with Cons.prems obtain p0 where p0: "Profile_FromJson env j = Inr p0"
      by (auto split: sum.splits)
    define h1 where "h1 = snd (alloc_Profile (stampProfile env tag p0) h)"
    obtain ws1 s1 where ap: "appendProfile env h1 (length (profs h)) (ws, s) = (ws1, s1)"
      by (cases "appendProfile env h1 (length (profs h)) (ws, s)") auto
    from Cons.prems True p0 ap
    have run: "parseProfiles env tag es (h1, ws1, s1) = (None, h', ws', s')"
      by (simp add: alloc_Profile_def h1_def)
    have len1: "length (profs h1) = Suc (length (profs h))"
      by (simp add: h1_def alloc_Profile_def)
    from parseProfiles_heap[OF run] obtain extra where ex: "profs h' = profs h1 @ extra"
      by blast
    then have le: "Suc (length (profs h)) \<le> length (profs h')"
      using len1 by simp
    have "appendProfile env h' (length (profs h)) (ws, s) = appendProfile env h1 (length (profs h)) (ws, s)"
      using ex len1 by (intro appendProfile_heap_irrelevant) auto
    with ap have ap': "appendProfile env h' (length (profs h)) (ws, s) = (ws1, s1)" by simp
    have "[length (profs h) ..< length (profs h')] = length (profs h) # [length (profs h1) ..< length (profs h')]"
      using le len1 by (simp add: upt_conv_Cons)
    with Cons.IH[OF run] ap' show ?thesis
      by (simp add: appendAll_def)
  qed
qed

lemma firstOcc_length: "length (firstOcc f seen xs) \<le> length xs"
  by (induction xs arbitrary: seen) (auto simp: le_SucI)

lemma firstOcc_distinct:
  "distinct (map f (firstOcc f seen xs)) \<and> f ` set (firstOcc f seen xs) \<inter> seen = {}"
proof (induction xs arbitrary: seen)
  case Nil then show ?case by simp
next
  case (Cons x xs)
  from Cons.IH[of seen] Cons.IH[of "insert (f x) seen"] show ?case by auto
qed

lemma appendAll_char:
  "appendAll env h as (ws, s) = (ws', s') \<Longrightarrow>
     profiles s' = profiles s @ firstOcc (\<lambda>a. Guid env (prof h a)) (dom (profilesByGuid s)) as
   \<and> ws' = ws @ replicate (length as - length (firstOcc (\<lambda>a. Guid env (prof h a)) (dom (profilesByGuid s)) as)) DuplicateProfile
   \<and> profilesByGuid s' = (\<lambda>g. case profilesByGuid s g of Some a \<Rightarrow> Some a
                                | None \<Rightarrow> find (\<lambda>a. Guid env (prof h a) = g) as)
   \<and> globals s' = globals s \<and> baseLayerProfile s' = baseLayerProfile s"
proof (induction as arbitrary: ws s)
  case Nil
  then show ?case by (auto simp: appendAll_def split: option.splits)
next
  case (Cons a as)
  let ?G = "\<lambda>a. Guid env (prof h a)"
  show ?case
  proof (cases "profilesByGuid s (?G a)")
    case None
    let ?s1 = "s\<lparr>profilesByGuid := (profilesByGuid s)(?G a \<mapsto> a), profiles := profiles s @ [a]\<rparr>"
    from Cons.prems None have "appendAll env h as (ws, ?s1) = (ws', s')"
      by (simp add: appendAll_def appendProfile_def)
    note ih = Cons.IH[OF this]
    have notin: "?G a \<notin> dom (profilesByGuid s)" using None by (simp add: domIff)
    have d: "dom (profilesByGuid ?s1) = insert (?G a) (dom (profilesByGuid s))" by simp
    have l: "length (firstOcc ?G (insert (?G a) (dom (profilesByGuid s))) as) \<le> length as"
      by (rule firstOcc_length)
    have 1: "profiles s' = profiles s @ firstOcc ?G (dom (profilesByGuid s)) (a # as)"
      using ih notin unfolding d by simp
    have 2: "ws' = ws @ replicate (length (a # as) - length (firstOcc ?G (dom (profilesByGuid s)) (a # as))) DuplicateProfile"
      using ih notin l unfolding d by simp
    have 3: "profilesByGuid s' = (\<lambda>g. case profilesByGuid s g of Some a \<Rightarrow> Some a
                                | None \<Rightarrow> find (\<lambda>a. ?G a = g) (a # as))"
      using ih None by (auto simp: fun_eq_iff split: option.splits)
    from 1 2 3 ih show ?thesis by simp
  next
    case (Some b)
    from Cons.prems Some have "appendAll env h as (ws @ [DuplicateProfile], s) = (ws', s')"
      by (simp add: appendAll_def appendProfile_def)
    note ih = Cons.IH[OF this]
    have isin: "?G a \<in> dom (profilesByGuid s)" using Some by (simp add: domIff)
    have l: "length (firstOcc ?G (dom (profilesByGuid s)) as) \<le> length as"
      by (rule firstOcc_length)
    have 1: "profiles s' = profiles s @ firstOcc ?G (dom (profilesByGuid s)) (a # as)"
      using ih isin by simp
    have 2: "ws' = ws @ replicate (length (a # as) - length (firstOcc ?G (dom (profilesByGuid s)) (a # as))) DuplicateProfile"
      using ih isin l by (simp add: Suc_diff_le replicate_append_same)
    have 3: "profilesByGuid s' = (\<lambda>g. case profilesByGuid s g of Some a \<Rightarrow> Some a
                                | None \<Rightarrow> find (\<lambda>a. ?G a = g) (a # as))"
      using ih Some by (auto simp: fun_eq_iff split: option.splits)
    from 1 2 3 ih show ?thesis by simp
  qed
qed

lemma parse_Inr:
  "parse env tag json (h, ws) = (Inr s', h', ws') \<Longrightarrow>
   \<exists>h2. parseProfiles env tag (elements (profilesArrayOf json))
          (h2, ws, emptyParsedSettings (length (globs h)) (length (profs h))) = (None, h', ws', s')
     \<and> length (profs h2) = Suc (length (profs h)) \<and> length (globs h2) = Suc (length (globs h))"
  by (auto simp: parse_def Let_def alloc_Globals_def alloc_Profile_def
           split: sum.splits prod.splits option.splits)

lemma firstOcc_subset: "set (firstOcc f seen xs) \<subseteq> {x \<in> set xs. f x \<notin> seen}"
proof (induction xs arbitrary: seen)
  case Nil then show ?case by simp
next
  case (Cons x xs)
  from Cons.IH[of seen] Cons.IH[of "insert (f x) seen"] show ?case by auto
qed

lemma firstOcc_append:
  "firstOcc f seen (xs @ ys) = firstOcc f seen xs @ firstOcc f (seen \<union> f ` set xs) ys"
  by (induction xs arbitrary: seen) (simp_all add: insert_absorb)

lemma firstOcc_drops_later:
  assumes "distinct (pre @ b # post)" "a \<in> set pre" "f a = f b"
  shows "b \<notin> set (firstOcc f seen (pre @ b # post))"
proof
  assume "b \<in> set (firstOcc f seen (pre @ b # post))"
  then consider "b \<in> set (firstOcc f seen pre)" | "b \<in> set (firstOcc f (seen \<union> f ` set pre) (b # post))"
    by (auto simp: firstOcc_append)
  then show False
  proof cases
    case 1
    with firstOcc_subset[of f seen pre] have "b \<in> set pre" by auto
    with assms(1) show False by simp
  next
    case 2
    have "f b \<in> seen \<union> f ` set pre" using assms(2,3) by (metis UnI2 imageI)
    with 2 have "b \<in> set (firstOcc f (seen \<union> f ` set pre) post)" by simp
    with firstOcc_subset[of f "seen \<union> f ` set pre" post] have "b \<in> set post" by auto
    with assms(1) show False by simp
  qed
qed

lemma find_not_later:
  assumes "distinct (pre @ b # post)" "a \<in> set pre" "P a"
  shows "find P (pre @ b # post) \<noteq> Some b"
proof
  assume f: "find P (pre @ b # post) = Some b"
  from assms(2,3) obtain x where x: "find P pre = Some x"
    by (cases "find P pre") (auto simp: find_None_iff)
  then have "x \<in> set pre" by (auto simp: find_Some_iff)
  moreover have "find P (pre @ b # post) = Some x" using x by (induction pre) auto
  ultimately show False using f assms(1) by auto
qed

lemma upt_split:
  "n0 \<le> b \<Longrightarrow> b < n1 \<Longrightarrow> [n0 ..< n1] = [n0 ..< b] @ b # [Suc b ..< n1]"
  by (metis le_add_diff_inverse less_imp_le_nat upt_add_eq_append upt_conv_Cons)

text \<open>
  C5. Within one parsed source \<^verbatim>\<open>_appendProfile\<close> de-duplicates by GUID. The profile objects
  accepted by \<^verbatim>\<open>_parse\<close> are allocated one after the other; of those, the source's profile
  list keeps the first for every GUID, the GUID index maps every GUID to that first profile,
  the GUIDs of the listed profiles are pairwise distinct, and one \<open>DuplicateProfile\<close>
  warning is appended for every profile that was dropped. A later profile with the GUID of
  an earlier one is neither listed nor indexed, and the heap keeps the earlier record as it
  was parsed (nothing is merged into it).
\<close>

theorem C5_duplicate_guid_dropped:
  assumes run: "parseProfiles env tag es (h, ws, emptyParsedSettings ga ba) = (None, h', ws', s')"
  shows "profs h' = profs h @ map (stamped env tag) (filter isValidProfileObject es)
    \<and> profiles s' = firstOcc (\<lambda>a. Guid env (prof h' a)) {} [length (profs h) ..< length (profs h')]
    \<and> profilesByGuid s' = (\<lambda>g. find (\<lambda>a. Guid env (prof h' a) = g) [length (profs h) ..< length (profs h')])
    \<and> distinct (map (\<lambda>a. Guid env (prof h' a)) (profiles s'))
    \<and> ws' = ws @ replicate (length (profs h') - length (profs h) - length (profiles s')) DuplicateProfile
    \<and> (\<forall>a b. length (profs h) \<le> a \<and> a < b \<and> b < length (profs h')
            \<and> Guid env (prof h' a) = Guid env (prof h' b)
          \<longrightarrow> b \<notin> set (profiles s') \<and> profilesByGuid s' (Guid env (prof h' b)) \<noteq> Some b)"
proof -
  let ?G = "\<lambda>a. Guid env (prof h' a)"
  let ?as = "[length (profs h) ..< length (profs h')]"
  have heap: "profs h' = profs h @ map (stamped env tag) (filter isValidProfileObject es)"
    using parseProfiles_heap[OF run] by simp
  have "appendAll env h' ?as (ws, emptyParsedSettings ga ba) = (ws', s')"
    using parseProfiles_append[OF run] by simp
  from appendAll_char[OF this]
  have p: "profiles s' = firstOcc ?G {} ?as"
    and i: "profilesByGuid s' = (\<lambda>g. find (\<lambda>a. ?G a = g) ?as)"
    and w: "ws' = ws @ replicate (length ?as - length (firstOcc ?G {} ?as)) DuplicateProfile"
    by (simp_all add: emptyParsedSettings_def)
  have d: "distinct (map ?G (profiles s'))"
    unfolding p using firstOcc_distinct[of ?G "{}" ?as] by simp
  have w': "ws' = ws @ replicate (length (profs h') - length (profs h) - length (profiles s')) DuplicateProfile"
    using w p by simp
  have later: "b \<notin> set (profiles s') \<and> profilesByGuid s' (?G b) \<noteq> Some b"
    if "length (profs h) \<le> a \<and> a < b \<and> b < length (profs h') \<and> ?G a = ?G b" for a b
  proof -
    from that have split: "?as = [length (profs h) ..< b] @ b # [Suc b ..< length (profs h')]"
      by (intro upt_split) auto
    have dist: "distinct ([length (profs h) ..< b] @ b # [Suc b ..< length (profs h')])"
      using split distinct_upt[of "length (profs h)" "length (profs h')"] by simp
    have ain: "a \<in> set [length (profs h) ..< b]" using that by simp
    have "b \<notin> set (firstOcc ?G {} ?as)"
      unfolding split using dist ain that by (intro firstOcc_drops_later[where a=a]) auto
    moreover have "find (\<lambda>x. ?G x = ?G b) ?as \<noteq> Some b"
      unfolding split using dist ain that by (intro find_not_later[where a=a]) auto
    ultimately show ?thesis using p i by simp
  qed
  from heap p i d w' later show ?thesis by blast
qed


lemma twoProfilesSameGuid_elements:
  "elements (profilesArrayOf twoProfilesSameGuid) =
     [JObject [(''name'', JString ''first''), (''guid'', JInt 7)],
      JObject [(''name'', JString ''second''), (''guid'', JInt 7)]]"
  by (simp add: twoProfilesSameGuid_def profilesArrayOf_def getJSONValue_def ProfilesKey_def
      ProfilesListKey_def)

lemma sampleEnv_simps:
  "Profile_FromJson sampleEnv j = Inr (sampleProfileFromJson j)"
  "GlobalAppSettings_FromJson sampleEnv j = Inr make_Globals"
  "ColorScheme_Validate sampleEnv j = True"
  "GenerateGuidForProfile sampleEnv n s = of_nat (length n)"
  by (simp_all add: sampleEnv_def)

theorem C5_duplicate_guid_dropped_witness:
  "\<exists>h' s'. parseProfiles sampleEnv User (elements (profilesArrayOf twoProfilesSameGuid))
       (emptyHeap, [], emptyParsedSettings 0 0) = (None, h', [DuplicateProfile], s')
     \<and> profiles s' = [0] \<and> profilesByGuid s' 7 = Some 0
     \<and> map name (profs h') = [''first'', ''second'']"
proof -
  let ?es = "elements (profilesArrayOf twoProfilesSameGuid)"
  obtain x h' ws' s' where run0:
    "parseProfiles sampleEnv User ?es (emptyHeap, [], emptyParsedSettings 0 0) = (x, h', ws', s')"
    by (cases "parseProfiles sampleEnv User ?es (emptyHeap, [], emptyParsedSettings 0 0)") auto
  have x: "x = None"
    using run0 unfolding twoProfilesSameGuid_elements
    by (auto simp: sampleEnv_simps isValidProfileObject_def isMember_def NameKey_def GuidKey_def
        split: prod.splits)
  have v: "filter isValidProfileObject ?es = ?es"
    unfolding twoProfilesSameGuid_elements
    by (simp add: isValidProfileObject_def isMember_def NameKey_def GuidKey_def)
  from run0 x have run:
    "parseProfiles sampleEnv User ?es (emptyHeap, [], emptyParsedSettings 0 0) = (None, h', ws', s')"
    by simp
  note c = C5_duplicate_guid_dropped[OF run]
  have heap: "profs h' =
     [stamped sampleEnv User (JObject [(''name'', JString ''first''), (''guid'', JInt 7)]),
      stamped sampleEnv User (JObject [(''name'', JString ''second''), (''guid'', JInt 7)])]"
    using c unfolding v by (simp add: twoProfilesSameGuid_elements emptyHeap_def)
  have g: "Guid sampleEnv (prof h' 0) = 7" "Guid sampleEnv (prof h' (Suc 0)) = 7"
    by (simp_all add: prof_def heap stamped_def sampleEnv_simps stampProfile_def HasGuid_def
        Guid_def sampleProfileFromJson_def make_Profile_def)
  have n: "map name (profs h') = [''first'', ''second'']"
    by (simp add: heap stamped_def sampleEnv_simps stampProfile_def HasGuid_def
        Guid_def sampleProfileFromJson_def make_Profile_def)
  have l: "length (profs h') = Suc (Suc 0)" "length (profs emptyHeap) = 0"
    by (simp_all add: heap emptyHeap_def)
  have p: "profiles s' = [0]"
    using c unfolding l by (simp add: g)
  have i: "profilesByGuid s' 7 = Some 0"
    using c unfolding l by (simp add: g)
  have w: "ws' = [DuplicateProfile]"
    using c p unfolding l by simp
  from run p i w n show ?thesis by simp
qed



section \<open>Profiles deleted by the user stay suppressed\<close>

lemma prof_upd_prof:
  "prof (upd_prof a f h) b = (if b = a \<and> a < length (profs h) then f (prof h a) else prof h b)"
  by (cases "a < length (profs h)") (auto simp: prof_def upd_prof_def nth_list_update list_update_beyond)

lemma length_upd_prof [simp]: "length (profs (upd_prof a f h)) = length (profs h)"
  by (simp add: upd_prof_def)

lemma globs_upd_prof [simp]: "globs (upd_prof a f h) = globs h"
  by (simp add: upd_prof_def)

lemma Guid_flags [simp]: "Guid env (p\<lparr>deleted := d, hidden := x\<rparr>) = Guid env p"
  by (simp add: Guid_def split: option.splits)

lemma disableDeleted_char:
  assumes "distinct (map (\<lambda>a. Guid env (prof h a)) ps)"
    and "\<forall>a\<in>set ps. a < length (profs h)"
    and "disableDeleted env ps (h, ids, new) = (h', ids', new')"
  shows "ids' = ids \<union> (\<lambda>a. Guid env (prof h a)) ` set ps
       \<and> new' = (new \<or> (\<exists>a\<in>set ps. Guid env (prof h a) \<notin> ids))
       \<and> length (profs h') = length (profs h) \<and> globs h' = globs h
       \<and> (\<forall>a. prof h' a = (if a \<in> set ps \<and> Guid env (prof h a) \<in> ids
                             then (prof h a)\<lparr>deleted := True, hidden := True\<rparr> else prof h a))"
  using assms
proof (induction ps arbitrary: h ids new)
  case Nil
  then show ?case by simp
next
  case (Cons p ps)
  let ?G = "\<lambda>h a. Guid env (prof h a)"
  show ?case
  proof (cases "?G h p \<in> ids")
    case False
    from Cons.prems False have run: "disableDeleted env ps (h, insert (?G h p) ids, True) = (h', ids', new')"
      by simp
    from Cons.prems have d: "distinct (map (?G h) ps)" and v: "\<forall>a\<in>set ps. a < length (profs h)"
      and fresh: "?G h p \<notin> ?G h ` set ps"
      by simp_all
    note ih = Cons.IH[OF d v run]
    have m: "\<And>a. a \<in> set ps \<Longrightarrow> (?G h a \<in> insert (?G h p) ids) = (?G h a \<in> ids)"
      using fresh by (metis imageI insert_iff)
    have 1: "ids' = ids \<union> ?G h ` set (p # ps)" using ih by auto
    have 2: "new' = (new \<or> (\<exists>a\<in>set (p # ps). ?G h a \<notin> ids))" using ih False by auto
    have 3: "\<forall>a. prof h' a = (if a \<in> set (p # ps) \<and> ?G h a \<in> ids
                             then (prof h a)\<lparr>deleted := True, hidden := True\<rparr> else prof h a)"
    proof
      fix a
      show "prof h' a = (if a \<in> set (p # ps) \<and> ?G h a \<in> ids
                             then (prof h a)\<lparr>deleted := True, hidden := True\<rparr> else prof h a)"
        using ih m[of a] False by (cases "a = p") auto
    qed
    from 1 2 3 ih show ?thesis by simp
  next
    case True
    let ?h1 = "upd_prof p (\<lambda>q. q\<lparr>deleted := True, hidden := True\<rparr>) h"
    from Cons.prems True have run: "disableDeleted env ps (?h1, ids, new) = (h', ids', new')"
      by simp
    have G1: "\<And>a. ?G ?h1 a = ?G h a" by (simp add: prof_upd_prof)
    from Cons.prems have d: "distinct (map (?G ?h1) ps)" and v: "\<forall>a\<in>set ps. a < length (profs ?h1)"
      and pv: "p < length (profs h)" and pn: "p \<notin> set ps"
      by (auto simp: G1)
    note ih = Cons.IH[OF d v run]
    have 1: "ids' = ids \<union> ?G h ` set (p # ps)" using ih True by (auto simp: G1)
    have 2: "new' = (new \<or> (\<exists>a\<in>set (p # ps). ?G h a \<notin> ids))" using ih True by (auto simp: G1)
    have 3: "\<forall>a. prof h' a = (if a \<in> set (p # ps) \<and> ?G h a \<in> ids
                             then (prof h a)\<lparr>deleted := True, hidden := True\<rparr> else prof h a)"
    proof
      fix a
      show "prof h' a = (if a \<in> set (p # ps) \<and> ?G h a \<in> ids
                             then (prof h a)\<lparr>deleted := True, hidden := True\<rparr> else prof h a)"
        using ih True pv pn by (cases "a = p") (auto simp: G1 prof_upd_prof)
    qed
    from 1 2 3 ih show ?thesis by simp
  qed
qed

text \<open>
  C4. \<^verbatim>\<open>DisableDeletedProfiles\<close> looks at the profiles behind the first \<open>userProfileCount\<close>
  entries of the user profile list and at nothing else: the profiles the user wrote, every
  other profile and the globals are unchanged. In a loader whose listed profiles have
  pairwise distinct GUIDs (what the GUID index guarantees for every appended profile), an
  examined profile whose GUID is in the persisted set is marked deleted and hidden; one
  whose GUID is new is left exactly as it was, and its GUID joins the set. The set held
  afterwards is the old one plus the GUIDs of all examined profiles, and it is written
  exactly if that changed it. The set never shrinks, so in any later load that starts
  from this set or a larger one, an examined profile with a recorded GUID ends deleted and
  hidden.
\<close>

theorem C4_DisableDeletedProfiles:
  assumes d: "distinct (map (\<lambda>a. Guid env (prof h a)) (profiles (userSettings loader)))"
      and v: "\<forall>a\<in>set (profiles (userSettings loader)). a < length (profs h)"
      and run: "DisableDeletedProfiles env state (h, loader) = ((h', loader'), state', written)"
  shows "loader' = loader \<and> globs h' = globs h \<and> length (profs h') = length (profs h)
     \<and> (\<forall>a. a \<notin> set (drop (userProfileCount loader) (profiles (userSettings loader)))
            \<longrightarrow> prof h' a = prof h a)
     \<and> (\<forall>a\<in>set (take (userProfileCount loader) (profiles (userSettings loader))).
            prof h' a = prof h a)
     \<and> (\<forall>a\<in>set (drop (userProfileCount loader) (profiles (userSettings loader))).
            (Guid env (prof h a) \<in> state
               \<longrightarrow> prof h' a = (prof h a)\<lparr>deleted := True, hidden := True\<rparr>)
          \<and> (Guid env (prof h a) \<notin> state \<longrightarrow> prof h' a = prof h a)
          \<and> Guid env (prof h a) \<in> state')
     \<and> state' = state \<union> (\<lambda>a. Guid env (prof h a)) `
                    set (drop (userProfileCount loader) (profiles (userSettings loader)))
     \<and> written = (state' \<noteq> state)
     \<and> (\<forall>later h2 loader2.
           state' \<subseteq> later
           \<and> distinct (map (\<lambda>a. Guid env (prof h2 a)) (profiles (userSettings loader2)))
           \<and> (\<forall>a\<in>set (profiles (userSettings loader2)). a < length (profs h2))
         \<longrightarrow> (\<forall>a\<in>set (drop (userProfileCount loader2) (profiles (userSettings loader2))).
                Guid env (prof h2 a) \<in> state'
                \<longrightarrow> hidden (prof (fst (fst (DisableDeletedProfiles env later (h2, loader2)))) a)
                  \<and> deleted (prof (fst (fst (DisableDeletedProfiles env later (h2, loader2)))) a)))"
proof -
  let ?G = "\<lambda>h a. Guid env (prof h a)"
  have gen: "snd (snd (disableDeleted env (drop (userProfileCount l) (profiles (userSettings l))) (hh, st, False)))
               = (\<exists>a\<in>set (drop (userProfileCount l) (profiles (userSettings l))). ?G hh a \<notin> st)
      \<and> fst (snd (disableDeleted env (drop (userProfileCount l) (profiles (userSettings l))) (hh, st, False)))
               = st \<union> ?G hh ` set (drop (userProfileCount l) (profiles (userSettings l)))
      \<and> length (profs (fst (disableDeleted env (drop (userProfileCount l) (profiles (userSettings l))) (hh, st, False)))) = length (profs hh)
      \<and> globs (fst (disableDeleted env (drop (userProfileCount l) (profiles (userSettings l))) (hh, st, False))) = globs hh
      \<and> (\<forall>a. prof (fst (disableDeleted env (drop (userProfileCount l) (profiles (userSettings l))) (hh, st, False))) a
             = (if a \<in> set (drop (userProfileCount l) (profiles (userSettings l))) \<and> ?G hh a \<in> st
                then (prof hh a)\<lparr>deleted := True, hidden := True\<rparr> else prof hh a))"
    if dd: "distinct (map (?G hh) (profiles (userSettings l)))"
      and vv: "\<forall>a\<in>set (profiles (userSettings l)). a < length (profs hh)"
    for hh l st
  proof -
    let ?ps = "drop (userProfileCount l) (profiles (userSettings l))"
    obtain h1 ids1 new1 where r: "disableDeleted env ?ps (hh, st, False) = (h1, ids1, new1)"
      by (cases "disableDeleted env ?ps (hh, st, False)") auto
    have d1: "distinct (map (?G hh) ?ps)"
      using dd by (simp add: distinct_drop drop_map[symmetric])
    have v1: "\<forall>a\<in>set ?ps. a < length (profs hh)"
      using vv by (meson in_set_dropD)
    from disableDeleted_char[OF d1 v1 r] r show ?thesis by simp
  qed
  let ?ps = "drop (userProfileCount loader) (profiles (userSettings loader))"
  note g = gen[OF d v, of state]
  from run have l: "loader' = loader"
    and h': "h' = fst (disableDeleted env ?ps (h, state, False))"
    and w: "written = snd (snd (disableDeleted env ?ps (h, state, False)))"
    and s': "state' = (if written then fst (snd (disableDeleted env ?ps (h, state, False))) else state)"
    by (auto simp: DisableDeletedProfiles_def split: prod.splits)
  have st: "state' = state \<union> ?G h ` set ?ps"
    using s' w g by auto
  have wr: "written = (state' \<noteq> state)"
    using w g st by auto
  have pr: "\<forall>a. prof h' a = (if a \<in> set ?ps \<and> ?G h a \<in> state
                then (prof h a)\<lparr>deleted := True, hidden := True\<rparr> else prof h a)"
    using g h' by simp
  have disj: "\<forall>a\<in>set (take (userProfileCount loader) (profiles (userSettings loader))). a \<notin> set ?ps"
  proof
    fix a assume a: "a \<in> set (take (userProfileCount loader) (profiles (userSettings loader)))"
    have "distinct (profiles (userSettings loader))" using d by (rule distinct_map[THEN iffD1, THEN conjunct1])
    then have "set (take (userProfileCount loader) (profiles (userSettings loader))) \<inter> set ?ps = {}"
      by (intro set_take_disj_set_drop_if_distinct) simp_all
    with a show "a \<notin> set ?ps" by auto
  qed
  have later: "hidden (prof (fst (fst (DisableDeletedProfiles env later (h2, loader2)))) a)
                  \<and> deleted (prof (fst (fst (DisableDeletedProfiles env later (h2, loader2)))) a)"
    if "state' \<subseteq> later"
      "distinct (map (?G h2) (profiles (userSettings loader2)))"
      "\<forall>a\<in>set (profiles (userSettings loader2)). a < length (profs h2)"
      "a \<in> set (drop (userProfileCount loader2) (profiles (userSettings loader2)))"
      "?G h2 a \<in> state'"
    for later h2 loader2 a
  proof -
    note g2 = gen[OF that(2,3), of later]
    have "fst (fst (DisableDeletedProfiles env later (h2, loader2)))
          = fst (disableDeleted env (drop (userProfileCount loader2) (profiles (userSettings loader2))) (h2, later, False))"
      by (simp add: DisableDeletedProfiles_def split: prod.splits)
    with g2 that show ?thesis by auto
  qed
  have c2: "globs h' = globs h" and c3: "length (profs h') = length (profs h)"
    using g h' by simp_all
  have c4: "\<forall>a. a \<notin> set ?ps \<longrightarrow> prof h' a = prof h a"
    using pr by simp
  have c5: "\<forall>a\<in>set (take (userProfileCount loader) (profiles (userSettings loader))). prof h' a = prof h a"
    using pr disj by simp
  have c6: "\<forall>a\<in>set ?ps.
            (Guid env (prof h a) \<in> state
               \<longrightarrow> prof h' a = (prof h a)\<lparr>deleted := True, hidden := True\<rparr>)
          \<and> (Guid env (prof h a) \<notin> state \<longrightarrow> prof h' a = prof h a)
          \<and> Guid env (prof h a) \<in> state'"
    using pr st by simp
  have c9: "\<forall>later h2 loader2.
           state' \<subseteq> later
           \<and> distinct (map (\<lambda>a. Guid env (prof h2 a)) (profiles (userSettings loader2)))
           \<and> (\<forall>a\<in>set (profiles (userSettings loader2)). a < length (profs h2))
         \<longrightarrow> (\<forall>a\<in>set (drop (userProfileCount loader2) (profiles (userSettings loader2))).
                Guid env (prof h2 a) \<in> state'
                \<longrightarrow> hidden (prof (fst (fst (DisableDeletedProfiles env later (h2, loader2)))) a)
                  \<and> deleted (prof (fst (fst (DisableDeletedProfiles env later (h2, loader2)))) a))"
    using later by blast
  show ?thesis
    apply (intro conjI)
            apply (rule l)
           apply (rule c2)
          apply (rule c3)
         apply (rule c4)
        apply (rule c5)
       apply (rule c6)
      apply (rule st)
     apply (rule wr)
    apply (rule c9)
    done
qed

theorem C4_DisableDeletedProfiles_witness:
  "distinct (map (\<lambda>a. Guid sampleEnv (prof stage6Heap a)) (profiles (userSettings stage6Loader)))
   \<and> set (profiles (userSettings stage6Loader)) \<subseteq> {..<length (profs stage6Heap)}
   \<and> (\<exists>h'. DisableDeletedProfiles sampleEnv {2} (stage6Heap, stage6Loader)
               = ((h', stage6Loader), {2, 3}, True)
          \<and> prof h' 0 = prof stage6Heap 0
          \<and> hidden (prof h' 1) \<and> deleted (prof h' 1)
          \<and> prof h' 2 = prof stage6Heap 2)"
proof -
  have g: "Guid sampleEnv (prof stage6Heap 0) = 1" "Guid sampleEnv (prof stage6Heap (Suc 0)) = 2"
    "Guid sampleEnv (prof stage6Heap 2) = 3"
    by (simp_all add: stage6Heap_def prof_def Guid_def sampleProfile_def make_Profile_def)
  have ps: "profiles (userSettings stage6Loader) = [0, Suc 0, 2]" "userProfileCount stage6Loader = Suc 0"
    by (simp_all add: stage6Loader_def)
  have d: "distinct (map (\<lambda>a. Guid sampleEnv (prof stage6Heap a)) (profiles (userSettings stage6Loader)))"
    by (simp add: ps g)
  have v: "\<forall>a\<in>set (profiles (userSettings stage6Loader)). a < length (profs stage6Heap)"
    by (simp add: ps stage6Heap_def)
  obtain h' l' s' w where run:
    "DisableDeletedProfiles sampleEnv {2} (stage6Heap, stage6Loader) = ((h', l'), s', w)"
    by (cases "DisableDeletedProfiles sampleEnv {2} (stage6Heap, stage6Loader)") auto
  note c = C4_DisableDeletedProfiles[OF d v run]
  have l: "l' = stage6Loader" using c by simp
  have s: "s' = {2, 3}" using c by (auto simp: ps g)
  have w: "w = True" using c s by auto
  have p0: "prof h' 0 = prof stage6Heap 0" using c by (simp add: ps)
  have p1: "hidden (prof h' 1) \<and> deleted (prof h' 1)" using c by (simp add: ps g)
  have p2: "prof h' 2 = prof stage6Heap 2" using c by (simp add: ps g)
  have v': "set (profiles (userSettings stage6Loader)) \<subseteq> {..<length (profs stage6Heap)}"
    using v by auto
  from d v' run l s w p0 p1 p2 show ?thesis by simp
qed



section \<open>Merging the inbox profiles into the user profiles\<close>

lemma ReproduceProfile_eq:
  "ReproduceProfile env parent h =
     (length (profs h),
      h\<lparr>profs := profs h @
          [make_Profile\<lparr>origin := User, name := name ((profs h @ [make_Profile]) ! parent),
                        guid := Some (Guid env ((profs h @ [make_Profile]) ! parent)),
                        hidden := hidden ((profs h @ [make_Profile]) ! parent),
                        parents := [parent]\<rparr>]\<rparr>)"
  by (simp add: ReproduceProfile_def alloc_Profile_def InsertParent_def upd_prof_def prof_def
      make_Profile_def)

text \<open>
  C3. Evaluation of \<^verbatim>\<open>MergeInboxIntoUserProfiles\<close> on a loader whose inbox list holds two
  generated profiles with one GUID, none of which the user wrote. For the first, a user
  profile is synthesized (address 4: user origin, name and GUID copied, the generated
  profile as its single parent) and appended. The GUID index of the user settings then
  holds the generated profile itself, not the synthesized one; so the second generated
  profile, whose GUID is that of an existing user profile, becomes a parent of the first
  generated profile (address 0) and not of the user profile.
\<close>

theorem C3_generated_profiles_with_one_guid:
  "(case MergeInboxIntoUserProfiles sampleEnv (sameGuidHeap, sameGuidLoader) of
      (h', loader') \<Rightarrow>
        (profiles (userSettings loader'), map (\<lambda>p. (origin p, name p, guid p, parents p)) (profs h'),
         profilesByGuid (userSettings loader') 7))
   = ([4],
      [(Generated, ''first'', Some 7, [1]), (Generated, ''second'', Some 7, []),
       (ProfilesDefaults, ''Default'', None, []), (ProfilesDefaults, ''Default'', None, []),
       (User, ''first'', Some 7, [0])],
      Some 0)"
  by (simp add: MergeInboxIntoUserProfiles_def sameGuidHeap_def sameGuidLoader_def
      emptyParsedSettings_def ReproduceProfile_eq prof_def Guid_def sampleProfile_def
      make_Profile_def InsertParent_def upd_prof_def)



section \<open>The walk through the parents ends on acyclic heaps\<close>

lemma getFromParents_returns:
  assumes "\<And>a. a \<in> set ps \<Longrightarrow> getImpl n h f a \<noteq> None"
  shows "getFromParents n h f ps \<noteq> None"
  using assms by (induction ps) (auto split: option.splits)

lemma getImpl_returns:
  "ranked h d \<Longrightarrow> a < length (profs h) \<Longrightarrow> d a < n \<Longrightarrow> getImpl n h f a \<noteq> None"
proof (induction n arbitrary: a)
  case 0
  then show ?case by simp
next
  case (Suc n)
  have "getFromParents n h f (parents (prof h a)) \<noteq> None"
  proof (rule getFromParents_returns)
    fix p assume "p \<in> set (parents (prof h a))"
    with Suc.prems have "p < length (profs h)" "d p < d a"
      by (auto simp: ranked_def)
    with Suc.prems show "getImpl n h f p \<noteq> None"
      by (intro Suc.IH) auto
  qed
  with Suc.prems show ?case by (auto split: option.splits)
qed

lemma resolve_returns:
  "ranked h d \<Longrightarrow> a < length (profs h) \<Longrightarrow> resolve h f a \<noteq> None"
  unfolding resolve_def by (rule getImpl_returns[where d=d]) (auto simp: ranked_def)

lemma getImpl_owner:
  "getImpl n h f a = Some (Some (ow, v)) \<Longrightarrow> ow < length (profs h) \<and> f (prof h ow) = Some v"
  and getFromParents_owner:
  "getFromParents n h f ps = Some (Some (ow, v)) \<Longrightarrow> ow < length (profs h) \<and> f (prof h ow) = Some v"
  by (induction n h f a and n h f ps rule: getImpl_getFromParents.induct)
     (auto split: if_splits option.splits)

lemma Get_returns:
  "ranked h d \<Longrightarrow> a < length (profs h) \<Longrightarrow> \<exists>v. Get env h k a = Some v"
  using resolve_returns[of h d a "\<lambda>p. explicit p k"]
  by (auto simp: Get_def Resolved_def)

lemma UnfocusedAppearance_returns:
  "ranked h d \<Longrightarrow> a < length (profs h) \<Longrightarrow> \<exists>r. UnfocusedAppearance h a = Some r"
  using resolve_returns[of h d a unfocused]
  by (auto simp: UnfocusedAppearance_def)

lemma UnfocusedAppearance_owner:
  "UnfocusedAppearance h a = Some (Some ou) \<Longrightarrow> fst ou < length (profs h) \<and> unfocused (prof h (fst ou)) = Some (snd ou)"
  using getImpl_owner[of "length (profs h)" h unfocused a "fst ou" "snd ou"]
  by (simp add: UnfocusedAppearance_def resolve_def)

lemma Unfocused_Get_returns:
  "ranked h d \<Longrightarrow> fst ou < length (profs h) \<Longrightarrow> \<exists>v. Unfocused_Get env h k ou = Some v"
  using Get_returns[of h d "fst ou" env "AK k"]
  by (cases ou) (auto simp: Unfocused_Get_def split: option.splits)

section \<open>What validation leaves alone\<close>

lemma sameSkeleton_refl: "sameSkeleton h h"
  by (simp add: sameSkeleton_def)

lemma sameSkeleton_trans: "sameSkeleton h h1 \<Longrightarrow> sameSkeleton h1 h2 \<Longrightarrow> sameSkeleton h h2"
  by (simp add: sameSkeleton_def)

lemma sameSkeleton_upd:
  assumes "\<And>p. origin (f p) = origin p \<and> name (f p) = name p \<and> guid (f p) = guid p
      \<and> hidden (f p) = hidden p \<and> deleted (f p) = deleted p \<and> source (f p) = source p
      \<and> updates (f p) = updates p \<and> parents (f p) = parents p
      \<and> (unfocused (f p) = None) = (unfocused p = None)"
  shows "sameSkeleton h (upd_prof a f h)"
  using assms by (simp add: sameSkeleton_def prof_upd_prof)

lemma sameSkeleton_Clear: "sameSkeleton h (Clear k a h)"
  unfolding Clear_def by (rule sameSkeleton_upd) simp

lemma sameSkeleton_Set: "sameSkeleton h (Set k v a h)"
  unfolding Set_def by (rule sameSkeleton_upd) simp

lemma sameSkeleton_Unfocused_Clear: "sameSkeleton h (Unfocused_Clear k a h)"
  unfolding Unfocused_Clear_def by (rule sameSkeleton_upd) simp

lemma globs_Clear [simp]: "globs (Clear k a h) = globs h"
  and globs_Set [simp]: "globs (Set k v a h) = globs h"
  and globs_Unfocused_Clear [simp]: "globs (Unfocused_Clear j a h) = globs h"
  by (simp_all add: Clear_def Set_def Unfocused_Clear_def upd_prof_def)

lemma ranked_sameSkeleton: "ranked h d \<Longrightarrow> sameSkeleton h h' \<Longrightarrow> ranked h' d"
  by (simp add: ranked_def sameSkeleton_def)

lemma sameSkeleton_length: "sameSkeleton h h' \<Longrightarrow> length (profs h') = length (profs h)"
  by (simp add: sameSkeleton_def)

section \<open>Loops of validation\<close>

lemma forEach_total:
  assumes "I st"
    and "\<And>x s. x \<in> set xs \<Longrightarrow> I s \<Longrightarrow> \<exists>s'. body x s = Inr s' \<and> I s'"
  shows "\<exists>s'. forEach body xs st = Inr s' \<and> I s'"
  using assms
proof (induction xs arbitrary: st)
  case Nil
  then show ?case by simp
next
  case (Cons x xs)
  from Cons.prems obtain s1 where s1: "body x st = Inr s1" "I s1" by (meson list.set_intros(1))
  from Cons.IH[OF s1(2)] Cons.prems(2) obtain s' where "forEach body xs s1 = Inr s'" "I s'"
    by (meson list.set_intros(2))
  with s1 show ?case by (simp add: andThen_def)
qed

lemma forEach_invariant:
  assumes "forEach body xs st = Inr s'" and "I st"
    and "\<And>x s s1. x \<in> set xs \<Longrightarrow> I s \<Longrightarrow> body x s = Inr s1 \<Longrightarrow> I s1"
  shows "I s'"
  using assms
proof (induction xs arbitrary: st)
  case Nil
  then show ?case by simp
next
  case (Cons x xs)
  from Cons.prems(1) obtain s1 where s1: "body x st = Inr s1" "forEach body xs s1 = Inr s'"
    by (auto simp: andThen_def split: sum.splits)
  have "I s1" using Cons.prems(2,3) s1(1) by (meson list.set_intros(1))
  from Cons.IH[OF s1(2) this] Cons.prems(3) show ?case by (meson list.set_intros(2))
qed

lemma andThen_Inr:
  "andThen r f = Inr y \<longleftrightarrow> (\<exists>x. r = Inr x \<and> f x = Inr y)"
  by (cases r) (simp_all add: andThen_def)

text \<open>What one check may do to the heap: nothing, or clear or set explicit values.\<close>

lemma checkDefaultScheme_cases:
  assumes "checkDefaultScheme env g p (h, fnd) = Inr (h', fnd')"
  shows "(h' = h \<and> fnd' = fnd) \<or> (h' = Clear (AK ColorSchemeName) p h \<and> fnd')"
  using assms by (auto simp: checkDefaultScheme_def split: option.splits if_splits)

lemma checkUnfocusedScheme_cases:
  assumes "checkUnfocusedScheme env g p (h, fnd) = Inr (h', fnd')"
  shows "(h' = h \<and> fnd' = fnd) \<or> (\<exists>ow. h' = Unfocused_Clear ColorSchemeName ow h \<and> fnd')"
  using assms by (auto simp: checkUnfocusedScheme_def split: option.splits if_splits)

lemma checkBackground_cases:
  assumes "checkBackground env p (h, bg, ic) = Inr (h', bg', ic')"
  shows "h' = h \<or> h' = Clear (AK BackgroundImagePath) p h"
  using assms by (auto simp: checkBackground_def split: option.splits if_splits)

lemma checkUnfocusedBackground_cases:
  assumes "checkUnfocusedBackground env p (h, bg, ic) = Inr (h', bg', ic')"
  shows "h' = h \<or> (\<exists>ow. h' = Unfocused_Clear BackgroundImagePath ow h)"
  using assms by (auto simp: checkUnfocusedBackground_def split: option.splits if_splits)

lemma checkIcon_cases:
  assumes "checkIcon env p (h, bg, ic) = Inr (h', bg', ic')"
  shows "h' = h \<or> h' = Set (PK Icon) [] p h"
  using assms by (auto simp: checkIcon_def split: option.splits if_splits)

lemma checkDefaultScheme_returns:
  "ranked h d \<Longrightarrow> p < length (profs h) \<Longrightarrow> \<exists>r. checkDefaultScheme env g p (h, fnd) = Inr r"
  using Get_returns[of h d p env "AK ColorSchemeName"]
  by (auto simp: checkDefaultScheme_def)

lemma checkUnfocusedScheme_returns:
  assumes "ranked h d" "p < length (profs h)"
  shows "\<exists>r. checkUnfocusedScheme env g p (h, fnd) = Inr r"
proof -
  obtain uo where uo: "UnfocusedAppearance h p = Some uo"
    using UnfocusedAppearance_returns[OF assms] by blast
  show ?thesis
  proof (cases uo)
    case None
    with uo show ?thesis by (simp add: checkUnfocusedScheme_def)
  next
    case (Some ou)
    with uo have "fst ou < length (profs h)" using UnfocusedAppearance_owner by blast
    from Unfocused_Get_returns[OF assms(1) this] obtain v where
      "Unfocused_Get env h ColorSchemeName ou = Some v" by blast
    with uo Some show ?thesis by (auto simp: checkUnfocusedScheme_def)
  qed
qed

lemma checkBackground_returns:
  "ranked h d \<Longrightarrow> p < length (profs h) \<Longrightarrow> \<exists>r. checkBackground env p (h, bg, ic) = Inr r"
  using Get_returns[of h d p env "AK BackgroundImagePath"]
  by (auto simp: checkBackground_def)

lemma checkUnfocusedBackground_returns:
  assumes "ranked h d" "p < length (profs h)"
  shows "\<exists>r. checkUnfocusedBackground env p (h, bg, ic) = Inr r"
proof -
  obtain uo where uo: "UnfocusedAppearance h p = Some uo"
    using UnfocusedAppearance_returns[OF assms] by blast
  show ?thesis
  proof (cases uo)
    case None
    with uo show ?thesis by (simp add: checkUnfocusedBackground_def)
  next
    case (Some ou)
    with uo have "fst ou < length (profs h)" using UnfocusedAppearance_owner by blast
    from Unfocused_Get_returns[OF assms(1) this] obtain v where
      "Unfocused_Get env h BackgroundImagePath ou = Some v" by blast
    with uo Some show ?thesis by (auto simp: checkUnfocusedBackground_def)
  qed
qed

lemma checkIcon_returns:
  "ranked h d \<Longrightarrow> p < length (profs h) \<Longrightarrow> \<exists>r. checkIcon env p (h, bg, ic) = Inr r"
  using Get_returns[of h d p env "PK Icon"]
  by (auto simp: checkIcon_def)

text \<open>The invariant of both loops: the skeleton of the heap and its globals are those of
  the heap the loop started from.\<close>

lemma validateSchemesOf_skeleton:
  assumes "validateSchemesOf env g p (h, fnd) = Inr (h', fnd')"
  shows "sameSkeleton h h' \<and> globs h' = globs h"
proof -
  from assms obtain h1 f1 where 1: "checkDefaultScheme env g p (h, fnd) = Inr (h1, f1)"
    and 2: "checkUnfocusedScheme env g p (h1, f1) = Inr (h', fnd')"
    by (auto simp: validateSchemesOf_def andThen_Inr)
  from checkDefaultScheme_cases[OF 1] have a: "sameSkeleton h h1 \<and> globs h1 = globs h"
    by (auto simp: sameSkeleton_refl sameSkeleton_Clear)
  from checkUnfocusedScheme_cases[OF 2] have b: "sameSkeleton h1 h' \<and> globs h' = globs h1"
    by (auto simp: sameSkeleton_refl sameSkeleton_Unfocused_Clear)
  from a b show ?thesis by (auto intro: sameSkeleton_trans)
qed

lemma validateSchemesOf_returns:
  assumes "ranked h d" "p < length (profs h)"
  shows "\<exists>r. validateSchemesOf env g p (h, fnd) = Inr r"
proof -
  from checkDefaultScheme_returns[OF assms] obtain h1 f1 where
    1: "checkDefaultScheme env g p (h, fnd) = Inr (h1, f1)" by fastforce
  from checkDefaultScheme_cases[OF 1] have a: "sameSkeleton h h1"
    by (auto simp: sameSkeleton_refl sameSkeleton_Clear)
  have "ranked h1 d" "p < length (profs h1)"
    using assms a ranked_sameSkeleton sameSkeleton_length by auto
  from checkUnfocusedScheme_returns[OF this] obtain r where
    "checkUnfocusedScheme env g p (h1, f1) = Inr r" by blast
  with 1 have "validateSchemesOf env g p (h, fnd) = Inr r"
    by (simp add: validateSchemesOf_def andThen_def)
  then show ?thesis by blast
qed

lemma validateMediaOf_skeleton:
  assumes "validateMediaOf env p (h, bg, ic) = Inr (h', bg', ic')"
  shows "sameSkeleton h h' \<and> globs h' = globs h"
proof -
  from assms obtain h1 b1 i1 h2 b2 i2 where 1: "checkBackground env p (h, bg, ic) = Inr (h1, b1, i1)"
    and 2: "checkUnfocusedBackground env p (h1, b1, i1) = Inr (h2, b2, i2)"
    and 3: "checkIcon env p (h2, b2, i2) = Inr (h', bg', ic')"
    by (auto simp: validateMediaOf_def andThen_Inr)
  from checkBackground_cases[OF 1] have a: "sameSkeleton h h1 \<and> globs h1 = globs h"
    by (auto simp: sameSkeleton_refl sameSkeleton_Clear)
  from checkUnfocusedBackground_cases[OF 2] have b: "sameSkeleton h1 h2 \<and> globs h2 = globs h1"
    by (auto simp: sameSkeleton_refl sameSkeleton_Unfocused_Clear)
  from checkIcon_cases[OF 3] have c: "sameSkeleton h2 h' \<and> globs h' = globs h2"
    by (auto simp: sameSkeleton_refl sameSkeleton_Set)
  from a b c show ?thesis by (auto intro: sameSkeleton_trans)
qed

lemma validateMediaOf_returns:
  assumes "ranked h d" "p < length (profs h)"
  shows "\<exists>r. validateMediaOf env p (h, bg, ic) = Inr r"
proof -
  from checkBackground_returns[OF assms] obtain h1 b1 i1 where
    1: "checkBackground env p (h, bg, ic) = Inr (h1, b1, i1)" by fastforce
  from checkBackground_cases[OF 1] have a: "sameSkeleton h h1"
    by (auto simp: sameSkeleton_refl sameSkeleton_Clear)
  have r1: "ranked h1 d" "p < length (profs h1)"
    using assms a ranked_sameSkeleton sameSkeleton_length by auto
  from checkUnfocusedBackground_returns[OF this] obtain h2 b2 i2 where
    2: "checkUnfocusedBackground env p (h1, b1, i1) = Inr (h2, b2, i2)" by fastforce
  from checkUnfocusedBackground_cases[OF 2] have b: "sameSkeleton h1 h2"
    by (auto simp: sameSkeleton_refl sameSkeleton_Unfocused_Clear)
  have "ranked h2 d" "p < length (profs h2)"
    using r1 b ranked_sameSkeleton sameSkeleton_length by auto
  from checkIcon_returns[OF this] obtain r where
    "checkIcon env p (h2, b2, i2) = Inr r" by blast
  with 1 2 have "validateMediaOf env p (h, bg, ic) = Inr r"
    by (simp add: validateMediaOf_def andThen_def)
  then show ?thesis by blast
qed

lemma forEach_schemes_skeleton:
  assumes "forEach (validateSchemesOf env g) ps (h, fnd) = Inr (h', fnd')"
  shows "sameSkeleton h h' \<and> globs h' = globs h"
proof -
  have "sameSkeleton h (fst (h', fnd')) \<and> globs (fst (h', fnd')) = globs h"
  proof (rule forEach_invariant[OF assms, where I="\<lambda>s. sameSkeleton h (fst s) \<and> globs (fst s) = globs h"])
    show "sameSkeleton h (fst (h, fnd)) \<and> globs (fst (h, fnd)) = globs h"
      by (simp add: sameSkeleton_refl)
  next
    fix x s s1
    assume "sameSkeleton h (fst s) \<and> globs (fst s) = globs h" "validateSchemesOf env g x s = Inr s1"
    then show "sameSkeleton h (fst s1) \<and> globs (fst s1) = globs h"
      using validateSchemesOf_skeleton[of env g x "fst s" "snd s" "fst s1" "snd s1"]
      by (auto intro: sameSkeleton_trans)
  qed
  then show ?thesis by simp
qed

lemma forEach_media_skeleton:
  assumes "forEach (validateMediaOf env) ps (h, bg, ic) = Inr (h', bg', ic')"
  shows "sameSkeleton h h' \<and> globs h' = globs h"
proof -
  have "sameSkeleton h (fst (h', bg', ic')) \<and> globs (fst (h', bg', ic')) = globs h"
  proof (rule forEach_invariant[OF assms, where I="\<lambda>s. sameSkeleton h (fst s) \<and> globs (fst s) = globs h"])
    show "sameSkeleton h (fst (h, bg, ic)) \<and> globs (fst (h, bg, ic)) = globs h"
      by (simp add: sameSkeleton_refl)
  next
    fix x s s1
    assume "sameSkeleton h (fst s) \<and> globs (fst s) = globs h" "validateMediaOf env x s = Inr s1"
    then show "sameSkeleton h (fst s1) \<and> globs (fst s1) = globs h"
      using validateMediaOf_skeleton[of env x "fst s" "fst (snd s)" "snd (snd s)" "fst s1" "fst (snd s1)" "snd (snd s1)"]
      by (auto intro: sameSkeleton_trans)
  qed
  then show ?thesis by simp
qed

lemma forEach_schemes_returns:
  assumes "ranked h d" "\<forall>a\<in>set ps. a < length (profs h)"
  shows "\<exists>r. forEach (validateSchemesOf env g) ps (h, fnd) = Inr r"
proof -
  have "\<exists>s'. forEach (validateSchemesOf env g) ps (h, fnd) = Inr s'
          \<and> (ranked (fst s') d \<and> length (profs (fst s')) = length (profs h))"
  proof (rule forEach_total[where I="\<lambda>s. ranked (fst s) d \<and> length (profs (fst s)) = length (profs h)"])
    show "ranked (fst (h, fnd)) d \<and> length (profs (fst (h, fnd))) = length (profs h)"
      using assms by simp
  next
    fix x and s :: "Heap \<times> bool"
    assume x: "x \<in> set ps" and i: "ranked (fst s) d \<and> length (profs (fst s)) = length (profs h)"
    then have xv: "x < length (profs (fst s))" using assms(2) by simp
    from validateSchemesOf_returns[of "fst s" d x env g "snd s"] i xv
    obtain r where r: "validateSchemesOf env g x s = Inr r" by auto
    from validateSchemesOf_skeleton[of env g x "fst s" "snd s" "fst r" "snd r"] r
    have "sameSkeleton (fst s) (fst r)" by simp
    with i have "ranked (fst r) d \<and> length (profs (fst r)) = length (profs h)"
      using ranked_sameSkeleton sameSkeleton_length by auto
    with r show "\<exists>s'. validateSchemesOf env g x s = Inr s'
        \<and> (ranked (fst s') d \<and> length (profs (fst s')) = length (profs h))" by blast
  qed
  then show ?thesis by blast
qed

lemma forEach_media_returns:
  assumes "ranked h d" "\<forall>a\<in>set ps. a < length (profs h)"
  shows "\<exists>r. forEach (validateMediaOf env) ps (h, bg, ic) = Inr r"
proof -
  have "\<exists>s'. forEach (validateMediaOf env) ps (h, bg, ic) = Inr s'
          \<and> (ranked (fst s') d \<and> length (profs (fst s')) = length (profs h))"
  proof (rule forEach_total[where I="\<lambda>s. ranked (fst s) d \<and> length (profs (fst s)) = length (profs h)"])
    show "ranked (fst (h, bg, ic)) d \<and> length (profs (fst (h, bg, ic))) = length (profs h)"
      using assms by simp
  next
    fix x and s :: "Heap \<times> bool \<times> bool"
    assume x: "x \<in> set ps" and i: "ranked (fst s) d \<and> length (profs (fst s)) = length (profs h)"
    then have xv: "x < length (profs (fst s))" using assms(2) by simp
    from validateMediaOf_returns[of "fst s" d x env "fst (snd s)" "snd (snd s)"] i xv
    obtain r where r: "validateMediaOf env x s = Inr r" by auto
    from validateMediaOf_skeleton[of env x "fst s" "fst (snd s)" "snd (snd s)" "fst r" "fst (snd r)" "snd (snd r)"] r
    have "sameSkeleton (fst s) (fst r)" by simp
    with i have "ranked (fst r) d \<and> length (profs (fst r)) = length (profs h)"
      using ranked_sameSkeleton sameSkeleton_length by auto
    with r show "\<exists>s'. validateMediaOf env x s = Inr s'
        \<and> (ranked (fst s') d \<and> length (profs (fst s')) = length (profs h))" by blast
  qed
  then show ?thesis by blast
qed

text \<open>The validation passes as a whole: they leave the skeleton of the heap, the globals and
  the profile lists of the container alone, they end with a result on an acyclic heap, and
  if they end without one, the reason is a getter that never returns.\<close>

lemma validateSettings_frame:
  assumes "validateSettings env (h, s) = Inr (h', s')"
  shows "sameSkeleton h h' \<and> globs h' = globs h \<and> cs_allProfiles s' = cs_allProfiles s
       \<and> cs_activeProfiles s' = cs_activeProfiles s \<and> cs_globals s' = cs_globals s
       \<and> cs_baseLayerProfile s' = cs_baseLayerProfile s"
proof -
  from assms obtain h1 s1 h2 s2 where 1: "validateAllSchemesExist env (h, s) = Inr (h1, s1)"
    and 2: "validateMediaResources env (h1, s1) = Inr (h2, s2)"
    and 3: "validateColorSchemesInCommands env (validateKeybindings (h2, s2)) = (h', s')"
    by (auto simp: validateSettings_def split: sum.splits)
  from 1 obtain f1 where l1: "forEach (validateSchemesOf env (cs_globals s)) (cs_allProfiles s) (h, False) = Inr (h1, f1)"
    and e1: "s1 = (if f1 then s\<lparr>cs_warnings := cs_warnings s @ [UnknownColorScheme]\<rparr> else s)"
    by (auto simp: validateAllSchemesExist_def split: sum.splits)
  from 2 obtain b2 i2 where l2: "forEach (validateMediaOf env) (cs_allProfiles s1) (h1, False, False) = Inr (h2, b2, i2)"
    and e2: "s2 = s1\<lparr>cs_warnings := cs_warnings s1
                           @ (if b2 then [InvalidBackgroundImage] else [])
                           @ (if i2 then [InvalidIcon] else [])\<rparr>"
    by (auto simp: validateMediaResources_def split: sum.splits)
  from 3 have e3: "h' = h2" "cs_allProfiles s' = cs_allProfiles s2" "cs_activeProfiles s' = cs_activeProfiles s2"
    "cs_globals s' = cs_globals s2" "cs_baseLayerProfile s' = cs_baseLayerProfile s2"
    by (auto simp: validateColorSchemesInCommands_def validateKeybindings_def split: if_splits)
  from forEach_schemes_skeleton[OF l1] forEach_media_skeleton[OF l2] e1 e2 e3
  show ?thesis by (auto intro: sameSkeleton_trans)
qed

lemma validateSettings_returns:
  assumes "ranked h d" "\<forall>a\<in>set (cs_allProfiles s). a < length (profs h)"
  shows "\<exists>r. validateSettings env (h, s) = Inr r"
proof -
  from forEach_schemes_returns[OF assms] obtain h1 f1 where
    l1: "forEach (validateSchemesOf env (cs_globals s)) (cs_allProfiles s) (h, False) = Inr (h1, f1)"
    by fastforce
  define s1 where "s1 = (if f1 then s\<lparr>cs_warnings := cs_warnings s @ [UnknownColorScheme]\<rparr> else s)"
  have 1: "validateAllSchemesExist env (h, s) = Inr (h1, s1)"
    using l1 by (simp add: validateAllSchemesExist_def s1_def)
  have sk: "sameSkeleton h h1" using forEach_schemes_skeleton[OF l1] by simp
  have r1: "ranked h1 d" using assms(1) sk by (rule ranked_sameSkeleton)
  have v1: "\<forall>a\<in>set (cs_allProfiles s1). a < length (profs h1)"
    using assms(2) sameSkeleton_length[OF sk] by (simp add: s1_def)
  from forEach_media_returns[OF r1 v1] obtain r2 where
    l2: "forEach (validateMediaOf env) (cs_allProfiles s1) (h1, False, False) = Inr r2"
    by blast
  then obtain st2 where 2: "validateMediaResources env (h1, s1) = Inr st2"
    by (cases r2) (auto simp: validateMediaResources_def)
  from 1 2 show ?thesis by (simp add: validateSettings_def)
qed

lemma forEach_Inl:
  assumes "forEach body xs st = Inl e"
  shows "\<exists>x s. body x s = Inl e"
  using assms
proof (induction xs arbitrary: st)
  case Nil then show ?case by simp
next
  case (Cons x xs)
  then show ?case by (cases "body x st") (auto simp: andThen_def)
qed

lemma validateSchemesOf_Inl: "validateSchemesOf env g p st = Inl e \<Longrightarrow> e = NoReturn"
  by (cases st)
     (auto simp: validateSchemesOf_def andThen_def checkDefaultScheme_def checkUnfocusedScheme_def
           split: sum.splits option.splits if_splits)

lemma validateMediaOf_Inl: "validateMediaOf env p st = Inl e \<Longrightarrow> e = NoReturn"
  by (cases st)
     (auto simp: validateMediaOf_def andThen_def checkBackground_def checkUnfocusedBackground_def
           checkIcon_def split: sum.splits option.splits if_splits)

lemma validateSettings_Inl: "validateSettings env st = Inl e \<Longrightarrow> e = NoReturn"
proof -
  assume a: "validateSettings env st = Inl e"
  obtain h s where st: "st = (h, s)" by (cases st)
  from a consider "validateAllSchemesExist env st = Inl e"
    | st1 where "validateMediaResources env st1 = Inl e"
    by (auto simp: validateSettings_def split: sum.splits)
  then show ?thesis
  proof cases
    case 1
    then have "forEach (validateSchemesOf env (cs_globals s)) (cs_allProfiles s) (h, False) = Inl e"
      by (auto simp: st validateAllSchemesExist_def split: sum.splits)
    from forEach_Inl[OF this] validateSchemesOf_Inl show ?thesis by blast
  next
    case 2
    obtain h1 s1 where st1: "st1 = (h1, s1)" by (cases st1)
    from 2 have "forEach (validateMediaOf env) (cs_allProfiles s1) (h1, False, False) = Inl e"
      by (auto simp: st1 validateMediaResources_def split: sum.splits)
    from forEach_Inl[OF this] validateMediaOf_Inl show ?thesis by blast
  qed
qed

lemma finalizeSettings_cases:
  "cs_allProfiles s \<noteq> [] \<Longrightarrow>
   \<exists>h1 s1. finalizeSettings env (h, s) = Inr (h1, s1) \<and> profs h1 = profs h
      \<and> cs_allProfiles s1 = cs_allProfiles s \<and> cs_activeProfiles s1 = cs_activeProfiles s
      \<and> cs_globals s1 = cs_globals s \<and> cs_baseLayerProfile s1 = cs_baseLayerProfile s"
  by (cases "cs_allProfiles s")
     (auto simp: finalizeSettings_def upd_glob_def split: option.splits)

lemma sameSkeleton_profs: "profs h1 = profs h \<Longrightarrow> sameSkeleton h h1"
  by (simp add: sameSkeleton_def prof_def)

lemma ranked_profs: "profs h1 = profs h \<Longrightarrow> ranked h d \<Longrightarrow> ranked h1 d"
  by (simp add: ranked_def prof_def)



section \<open>Constructing the container\<close>

text \<open>
  C6. The constructor of the container fails with \<open>NoProfiles\<close> exactly if the merged user
  profile list is empty, and with \<open>AllProfilesHidden\<close> exactly if the list is not empty and
  every profile in it is hidden; both are the exception \<^verbatim>\<open>SettingsException\<close>, thrown before
  any field of the container is set. When the constructor returns, \<open>AllProfiles\<close> is the
  merged list and \<open>ActiveProfiles\<close> is its sublist of the profiles that are not hidden,
  before as well as after validation. And it does return when the list has a profile that
  is not hidden and the parent lists of the heap are acyclic.
\<close>

theorem C6_constructor_errors:
  "(CascadiaSettings_new env (h, loader) = Inl (LoadError NoProfiles))
      = (profiles (userSettings loader) = [])
   \<and> (CascadiaSettings_new env (h, loader) = Inl (LoadError AllProfilesHidden))
      = (profiles (userSettings loader) \<noteq> []
         \<and> (\<forall>a\<in>set (profiles (userSettings loader)). hidden (prof h a)))
   \<and> (CascadiaSettings_new env (h, loader) = Inr (h', s)
        \<longrightarrow> cs_allProfiles s = profiles (userSettings loader)
          \<and> cs_activeProfiles s
               = filter (\<lambda>a. \<not> hidden (prof h a)) (profiles (userSettings loader))
          \<and> cs_activeProfiles s \<noteq> []
          \<and> cs_globals s = globals (userSettings loader)
          \<and> cs_baseLayerProfile s = baseLayerProfile (userSettings loader)
          \<and> ((\<forall>a\<in>set (profiles (userSettings loader)). a < length (profs h))
               \<longrightarrow> cs_activeProfiles s = filter (\<lambda>a. \<not> hidden (prof h' a)) (cs_allProfiles s)))
   \<and> (ranked h d \<and> (\<forall>a\<in>set (profiles (userSettings loader)). a < length (profs h))
        \<and> (\<exists>a\<in>set (profiles (userSettings loader)). \<not> hidden (prof h a))
        \<longrightarrow> (\<exists>h' s. CascadiaSettings_new env (h, loader) = Inr (h', s)))"
proof -
  let ?ps = "profiles (userSettings loader)"
  let ?act = "filter (\<lambda>a. \<not> hidden (prof h a)) ?ps"
  let ?s0 = "\<lparr> cs_globals = globals (userSettings loader),
                cs_baseLayerProfile = baseLayerProfile (userSettings loader),
                cs_allProfiles = ?ps, cs_activeProfiles = ?act,
                cs_warnings = warnings loader, cs_loadError = None,
                cs_deserializationErrorMessage = [], cs_currentDefaultTerminal = None \<rparr>"
  have allhid: "(?act = []) = (\<forall>a\<in>set ?ps. hidden (prof h a))"
    by (auto simp: filter_empty_conv)
  have new: "CascadiaSettings_new env (h, loader) =
      (if ?ps = [] then Inl (LoadError NoProfiles)
       else if ?act = [] then Inl (LoadError AllProfilesHidden)
       else (case finalizeSettings env (h, ?s0) of Inl e \<Rightarrow> Inl e
             | Inr st1 \<Rightarrow> validateSettings env st1))"
    by (simp add: CascadiaSettings_new_def Let_def)
  have proper: "\<exists>h1 s1. finalizeSettings env (h, ?s0) = Inr (h1, s1) \<and> profs h1 = profs h
      \<and> cs_allProfiles s1 = ?ps \<and> cs_activeProfiles s1 = ?act
      \<and> cs_globals s1 = globals (userSettings loader)
      \<and> cs_baseLayerProfile s1 = baseLayerProfile (userSettings loader)
      \<and> CascadiaSettings_new env (h, loader) = validateSettings env (h1, s1)"
    if ne: "?ps \<noteq> []" "?act \<noteq> []"
  proof -
    from finalizeSettings_cases[of ?s0 env h] ne(1) obtain h1 s1 where
      f: "finalizeSettings env (h, ?s0) = Inr (h1, s1)" "profs h1 = profs h"
        "cs_allProfiles s1 = ?ps" "cs_activeProfiles s1 = ?act"
        "cs_globals s1 = globals (userSettings loader)"
        "cs_baseLayerProfile s1 = baseLayerProfile (userSettings loader)"
      by auto
    with new ne show ?thesis by simp
  qed
  have noLoadError: "CascadiaSettings_new env (h, loader) \<noteq> Inl (LoadError e)"
    if "?ps \<noteq> []" "?act \<noteq> []" for e
  proof
    assume a: "CascadiaSettings_new env (h, loader) = Inl (LoadError e)"
    from proper[OF that] obtain h1 s1 where
      "CascadiaSettings_new env (h, loader) = validateSettings env (h1, s1)" by blast
    with a validateSettings_Inl show False by fastforce
  qed
  have c1: "(CascadiaSettings_new env (h, loader) = Inl (LoadError NoProfiles)) = (?ps = [])"
  proof (cases "?ps = []")
    case True then show ?thesis using new by simp
  next
    case False
    show ?thesis
    proof (cases "?act = []")
      case True with False new show ?thesis by simp
    next
      case F2: False
      with False noLoadError show ?thesis by simp
    qed
  qed
  have c2: "(CascadiaSettings_new env (h, loader) = Inl (LoadError AllProfilesHidden))
      = (?ps \<noteq> [] \<and> (\<forall>a\<in>set ?ps. hidden (prof h a)))"
  proof (cases "?ps = []")
    case True then show ?thesis using new by simp
  next
    case False
    show ?thesis
    proof (cases "?act = []")
      case True with False new allhid show ?thesis by simp
    next
      case F2: False
      with False noLoadError allhid show ?thesis by simp
    qed
  qed
  have c3: "CascadiaSettings_new env (h, loader) = Inr (h', s)
        \<longrightarrow> cs_allProfiles s = ?ps \<and> cs_activeProfiles s = ?act \<and> cs_activeProfiles s \<noteq> []
          \<and> cs_globals s = globals (userSettings loader)
          \<and> cs_baseLayerProfile s = baseLayerProfile (userSettings loader)
          \<and> ((\<forall>a\<in>set ?ps. a < length (profs h))
               \<longrightarrow> cs_activeProfiles s = filter (\<lambda>a. \<not> hidden (prof h' a)) (cs_allProfiles s))"
  proof
    assume r: "CascadiaSettings_new env (h, loader) = Inr (h', s)"
    with new have ne: "?ps \<noteq> []" "?act \<noteq> []" by (auto split: if_splits)
    from proper[OF ne] r obtain h1 s1 where
      f: "profs h1 = profs h" "cs_allProfiles s1 = ?ps" "cs_activeProfiles s1 = ?act"
        "cs_globals s1 = globals (userSettings loader)"
        "cs_baseLayerProfile s1 = baseLayerProfile (userSettings loader)"
        "validateSettings env (h1, s1) = Inr (h', s)"
      by auto
    note fr = validateSettings_frame[OF f(6)]
    have sk: "sameSkeleton h h'"
      using sameSkeleton_profs[OF f(1)] fr by (auto intro: sameSkeleton_trans)
    have hid: "(\<forall>a\<in>set ?ps. a < length (profs h))
        \<longrightarrow> filter (\<lambda>a. \<not> hidden (prof h' a)) ?ps = ?act"
    proof
      assume v: "\<forall>a\<in>set ?ps. a < length (profs h)"
      have "\<forall>a\<in>set ?ps. hidden (prof h' a) = hidden (prof h a)"
        using sk v by (simp add: sameSkeleton_def)
      then show "filter (\<lambda>a. \<not> hidden (prof h' a)) ?ps = ?act"
        by (auto intro: filter_cong)
    qed
    from fr f ne hid show "cs_allProfiles s = ?ps \<and> cs_activeProfiles s = ?act \<and> cs_activeProfiles s \<noteq> []
          \<and> cs_globals s = globals (userSettings loader)
          \<and> cs_baseLayerProfile s = baseLayerProfile (userSettings loader)
          \<and> ((\<forall>a\<in>set ?ps. a < length (profs h))
               \<longrightarrow> cs_activeProfiles s = filter (\<lambda>a. \<not> hidden (prof h' a)) (cs_allProfiles s))"
      by simp
  qed
  have c4: "ranked h d \<and> (\<forall>a\<in>set ?ps. a < length (profs h))
        \<and> (\<exists>a\<in>set ?ps. \<not> hidden (prof h a))
        \<longrightarrow> (\<exists>h' s. CascadiaSettings_new env (h, loader) = Inr (h', s))"
  proof
    assume a: "ranked h d \<and> (\<forall>a\<in>set ?ps. a < length (profs h))
        \<and> (\<exists>a\<in>set ?ps. \<not> hidden (prof h a))"
    then have ne: "?ps \<noteq> []" "?act \<noteq> []" using allhid by auto
    from proper[OF ne] obtain h1 s1 where
      f: "profs h1 = profs h" "cs_allProfiles s1 = ?ps"
         "CascadiaSettings_new env (h, loader) = validateSettings env (h1, s1)"
      by blast
    have "ranked h1 d" using a f(1) ranked_profs by blast
    moreover have "\<forall>a\<in>set (cs_allProfiles s1). a < length (profs h1)" using a f by simp
    ultimately obtain r where "validateSettings env (h1, s1) = Inr r"
      using validateSettings_returns by blast
    with f(3) show "\<exists>h' s. CascadiaSettings_new env (h, loader) = Inr (h', s)"
      by (cases r) auto
  qed
  from c1 c2 c3 c4 show ?thesis by (intro conjI)
qed

lemma stage6_facts:
  "profiles (userSettings stage6Loader) = [0, Suc 0, 2]"
  "length (profs stage6Heap) = 5"
  "length (profs allHiddenHeap) = 5"
  "hidden (prof stage6Heap 0) = False" "hidden (prof stage6Heap (Suc 0)) = False"
  "hidden (prof stage6Heap 2) = False"
  "hidden (prof allHiddenHeap 0) = True" "hidden (prof allHiddenHeap (Suc 0)) = True"
  "hidden (prof allHiddenHeap 2) = True"
  by (simp_all add: stage6Loader_def stage6Heap_def allHiddenHeap_def prof_def sampleProfile_def
      make_Profile_def)

lemma ranked_stage6Heap: "ranked stage6Heap (\<lambda>a. 0)"
  by (auto simp: ranked_def stage6Heap_def prof_def sampleProfile_def make_Profile_def
      nth_Cons split: nat.splits)

theorem C6_constructor_errors_witness:
  "CascadiaSettings_new sampleEnv (sameGuidHeap, sameGuidLoader) = Inl (LoadError NoProfiles)
   \<and> CascadiaSettings_new sampleEnv (allHiddenHeap, stage6Loader) = Inl (LoadError AllProfilesHidden)
   \<and> (\<exists>h' s. CascadiaSettings_new sampleEnv (stage6Heap, stage6Loader) = Inr (h', s)
         \<and> cs_allProfiles s = [0, 1, 2] \<and> cs_activeProfiles s = [0, 1, 2])"
proof -
  have e: "profiles (userSettings sameGuidLoader) = []"
    by (simp add: sameGuidLoader_def emptyParsedSettings_def)
  have 1: "CascadiaSettings_new sampleEnv (sameGuidHeap, sameGuidLoader) = Inl (LoadError NoProfiles)"
    using C6_constructor_errors[of sampleEnv sameGuidHeap sameGuidLoader] e by simp
  have 2: "CascadiaSettings_new sampleEnv (allHiddenHeap, stage6Loader) = Inl (LoadError AllProfilesHidden)"
    using C6_constructor_errors[of sampleEnv allHiddenHeap stage6Loader]
    by (simp add: stage6_facts)
  have "\<exists>h' s. CascadiaSettings_new sampleEnv (stage6Heap, stage6Loader) = Inr (h', s)"
    using C6_constructor_errors[of sampleEnv stage6Heap stage6Loader _ _ "\<lambda>a. 0"] ranked_stage6Heap
    by (simp add: stage6_facts)
  then obtain h' s where r: "CascadiaSettings_new sampleEnv (stage6Heap, stage6Loader) = Inr (h', s)"
    by blast
  from C6_constructor_errors[of sampleEnv stage6Heap stage6Loader h' s] r
  have "cs_allProfiles s = [0, 1, 2] \<and> cs_activeProfiles s = [0, 1, 2]"
    by (simp add: stage6_facts)
  with 1 2 r show ?thesis by blast
qed



section \<open>Unknown colour schemes\<close>


lemma prof_Clear:
  "prof (Clear k a h) b =
     (if b = a \<and> a < length (profs h) then (prof h a)\<lparr>explicit := (explicit (prof h a))(k := None)\<rparr>
      else prof h b)"
  by (simp add: Clear_def prof_upd_prof)

lemma prof_Unfocused_Clear:
  "prof (Unfocused_Clear k a h) b =
     (if b = a \<and> a < length (profs h)
      then (prof h a)\<lparr>unfocused := map_option (\<lambda>u. u(k := None)) (unfocused (prof h a))\<rparr>
      else prof h b)"
  by (simp add: Unfocused_Clear_def prof_upd_prof)

lemma unfocusedScheme_Clear [simp]: "unfocusedScheme (Clear k a h) b = unfocusedScheme h b"
  by (simp add: unfocusedScheme_def prof_Clear)


lemma explicit_Unfocused_Clear [simp]:
  "explicit (prof (Unfocused_Clear k a h) b) = explicit (prof h b)"
  by (simp add: prof_Unfocused_Clear)

















section \<open>Finalizing the layering\<close>

lemma glob_upd_glob:
  "glob (upd_glob a f h) b = (if b = a \<and> a < length (globs h) then f (glob h a) else glob h b)"
  by (cases "a < length (globs h)") (auto simp: glob_def upd_glob_def nth_list_update list_update_beyond)

lemma length_upd_glob [simp]: "length (globs (upd_glob a f h)) = length (globs h)"
  by (simp add: upd_glob_def)

lemma profs_upd_glob [simp]: "profs (upd_glob a f h) = profs h"
  by (simp add: upd_glob_def)

lemma prof_upd_glob [simp]: "prof (upd_glob a f h) b = prof h b"
  by (simp add: prof_def)

lemma glob_upd_prof [simp]: "glob (upd_prof a f h) b = glob h b"
  by (simp add: glob_def)

lemma finalize_fold:
  assumes "a < length (globs h)" "a \<notin> set qs"
  shows "glob (fold (\<lambda>parent h1.
             upd_glob a (\<lambda>g. g\<lparr>actionMapParents := actionMapParents g @ [parent],
                                 keybindingsWarnings :=
                                   keybindingsWarnings g @ keybindingsWarnings (glob h1 parent),
                                 colorSchemes := colorSchemes g ++ colorSchemes (glob h1 parent)\<rparr>) h1)
          qs h) x
       = (if x = a then finalizedGlobals (glob h a) (map (\<lambda>q. (q, glob h q)) qs) else glob h x)
     \<and> profs (fold (\<lambda>parent h1.
             upd_glob a (\<lambda>g. g\<lparr>actionMapParents := actionMapParents g @ [parent],
                                 keybindingsWarnings :=
                                   keybindingsWarnings g @ keybindingsWarnings (glob h1 parent),
                                 colorSchemes := colorSchemes g ++ colorSchemes (glob h1 parent)\<rparr>) h1)
          qs h) = profs h"
  using assms
proof (induction qs arbitrary: h)
  case Nil
  then show ?case by (simp add: finalizedGlobals_def)
next
  case (Cons q qs)
  let ?h1 = "upd_glob a (\<lambda>g. g\<lparr>actionMapParents := actionMapParents g @ [q],
                                 keybindingsWarnings :=
                                   keybindingsWarnings g @ keybindingsWarnings (glob h q),
                                 colorSchemes := colorSchemes g ++ colorSchemes (glob h q)\<rparr>) h"
  from Cons.prems have a1: "a < length (globs ?h1)" and n1: "a \<notin> set qs" and qa: "q \<noteq> a" by auto
  note ih = Cons.IH[OF a1 n1]
  have same: "map (\<lambda>r. (r, glob ?h1 r)) qs = map (\<lambda>r. (r, glob h r)) qs"
    using n1 by (auto simp: glob_upd_glob)
  have ga: "glob ?h1 a = (glob h a)\<lparr>actionMapParents := actionMapParents (glob h a) @ [q],
                                 keybindingsWarnings :=
                                   keybindingsWarnings (glob h a) @ keybindingsWarnings (glob h q),
                                 colorSchemes := colorSchemes (glob h a) ++ colorSchemes (glob h q)\<rparr>"
    using Cons.prems(1) by (simp add: glob_upd_glob)
  show ?case
    using ih qa Cons.prems(1) unfolding same ga
    by (simp add: finalizedGlobals_def glob_upd_glob)
qed

lemma fold_InsertParentAt:
  assumes "distinct ps" "\<forall>p\<in>set ps. p < length (profs h)"
  shows "prof (fold (\<lambda>profile hp. Profile_FinalizeInheritance profile (InsertParentAt profile 0 b hp)) ps h) x
           = (if x \<in> set ps then (prof h x)\<lparr>parents := b # parents (prof h x)\<rparr> else prof h x)
       \<and> globs (fold (\<lambda>profile hp. Profile_FinalizeInheritance profile (InsertParentAt profile 0 b hp)) ps h)
           = globs h
       \<and> length (profs (fold (\<lambda>profile hp. Profile_FinalizeInheritance profile (InsertParentAt profile 0 b hp)) ps h))
           = length (profs h)"
  using assms
proof (induction ps arbitrary: h)
  case Nil
  then show ?case by simp
next
  case (Cons p ps)
  let ?h1 = "Profile_FinalizeInheritance p (InsertParentAt p 0 b h)"
  have l1: "length (profs ?h1) = length (profs h)" and g1: "globs ?h1 = globs h"
    by (simp_all add: Profile_FinalizeInheritance_def InsertParentAt_def)
  have p1: "\<And>y. prof ?h1 y = (if y = p then (prof h p)\<lparr>parents := b # parents (prof h p)\<rparr> else prof h y)"
    using Cons.prems(2) by (simp add: Profile_FinalizeInheritance_def InsertParentAt_def prof_upd_prof)
  from Cons.prems have d: "distinct ps" and v: "\<forall>q\<in>set ps. q < length (profs ?h1)" and pn: "p \<notin> set ps"
    by (simp_all add: l1)
  from Cons.IH[OF d v] pn show ?case
    by (simp add: p1 l1 g1)
qed

lemma Resolved_own:
  "a < length (profs h) \<Longrightarrow> explicit (prof h a) k = Some v \<Longrightarrow> Resolved h k a = Some (Some v)"
  by (cases "length (profs h)") (simp_all add: Resolved_def resolve_def)

lemma Resolved_first_parent:
  assumes "a < length (profs h)" "b < length (profs h)" "a \<noteq> b"
    and "explicit (prof h a) k = None" "parents (prof h a) = b # rest"
    and "explicit (prof h b) k = Some v"
  shows "Resolved h k a = Some (Some v)"
proof -
  from assms(1,2,3) have "2 \<le> length (profs h)" by simp
  then obtain n where n: "length (profs h) = Suc (Suc n)"
    by (metis Suc_le_D numeral_2_eq_2 Suc_le_mono)
  show ?thesis using assms by (simp add: Resolved_def resolve_def n)
qed

text \<open>
  C1. \<^verbatim>\<open>FinalizeLayering\<close>, on a loader whose user globals, user base-layer profile and user
  profiles are distinct objects of the heap. It leaves the loader's own fields alone. The
  inbox globals are appended to the parents of the user globals, and the user globals are
  then finalized over all their parents, the inbox globals included (action-map parents,
  keybinding warnings and colour schemes are taken over). The inbox base-layer profile is
  appended to the parents of the user base-layer profile. Every profile of the user list
  gets the user base-layer profile as its parent at position 0; no other profile changes.
  Position 0 is the parent that resolution asks first: a value set on the profile itself
  still wins, and a value set in the user's \<open>profiles.defaults\<close> wins over every other
  parent of the profile.
\<close>

theorem C1_FinalizeLayering:
  assumes g: "globals (userSettings loader) < length (globs h)"
      and gp: "globals (userSettings loader) \<notin> set (gparents (glob h (globals (userSettings loader))))"
      and gi: "globals (userSettings loader) \<noteq> globals (inboxSettings loader)"
      and b: "baseLayerProfile (userSettings loader) < length (profs h)"
      and bp: "baseLayerProfile (userSettings loader) \<notin> set (profiles (userSettings loader))"
      and d: "distinct (profiles (userSettings loader))"
      and v: "\<forall>p\<in>set (profiles (userSettings loader)). p < length (profs h)"
      and run: "FinalizeLayering (h, loader) = (h', loader')"
  shows "loader' = loader
     \<and> gparents (glob h' (globals (userSettings loader)))
          = gparents (glob h (globals (userSettings loader))) @ [globals (inboxSettings loader)]
     \<and> glob h' (globals (userSettings loader))
          = finalizedGlobals
              ((glob h (globals (userSettings loader)))
                 \<lparr>gparents := gparents (glob h (globals (userSettings loader)))
                                @ [globals (inboxSettings loader)]\<rparr>)
              (map (\<lambda>q. (q, glob h q))
                 (gparents (glob h (globals (userSettings loader))) @ [globals (inboxSettings loader)]))
     \<and> (\<forall>x. x \<noteq> globals (userSettings loader) \<longrightarrow> glob h' x = glob h x)
     \<and> prof h' (baseLayerProfile (userSettings loader))
          = (prof h (baseLayerProfile (userSettings loader)))
              \<lparr>parents := parents (prof h (baseLayerProfile (userSettings loader)))
                           @ [baseLayerProfile (inboxSettings loader)]\<rparr>
     \<and> (\<forall>p\<in>set (profiles (userSettings loader)).
           prof h' p = (prof h p)\<lparr>parents := baseLayerProfile (userSettings loader) # parents (prof h p)\<rparr>)
     \<and> (\<forall>x. x \<noteq> baseLayerProfile (userSettings loader) \<and> x \<notin> set (profiles (userSettings loader))
           \<longrightarrow> prof h' x = prof h x)
     \<and> (\<forall>p\<in>set (profiles (userSettings loader)). \<forall>k val.
           explicit (prof h p) k = Some val \<longrightarrow> Resolved h' k p = Some (Some val))
     \<and> (\<forall>p\<in>set (profiles (userSettings loader)). \<forall>k val.
           explicit (prof h p) k = None
           \<and> explicit (prof h (baseLayerProfile (userSettings loader))) k = Some val
           \<longrightarrow> Resolved h' k p = Some (Some val))"
proof -
  let ?ug = "globals (userSettings loader)" and ?ig = "globals (inboxSettings loader)"
  let ?ub = "baseLayerProfile (userSettings loader)" and ?ib = "baseLayerProfile (inboxSettings loader)"
  let ?ps = "profiles (userSettings loader)"
  let ?old = "gparents (glob h ?ug)"
  define h1 where "h1 = Globals_InsertParent ?ug ?ig h"
  define h2 where "h2 = Globals_FinalizeInheritance ?ug h1"
  define h3 where "h3 = InsertParent ?ub ?ib h2"
  from run have l: "loader' = loader"
    and h': "h' = fold (\<lambda>profile. InsertParentAt profile 0 ?ub) ?ps h3"
    by (auto simp: FinalizeLayering_def Let_def h1_def h2_def h3_def Profile_FinalizeInheritance_def)
  have g1: "\<And>x. glob h1 x = (if x = ?ug then (glob h ?ug)\<lparr>gparents := ?old @ [?ig]\<rparr> else glob h x)"
    and p1: "profs h1 = profs h" and lg1: "length (globs h1) = length (globs h)"
    using g by (simp_all add: h1_def Globals_InsertParent_def glob_upd_glob)
  have ugn: "?ug \<notin> set (?old @ [?ig])" using gp gi by simp
  have g1u: "gparents (glob h1 ?ug) = ?old @ [?ig]" by (simp add: g1)
  have same: "map (\<lambda>q. (q, glob h1 q)) (?old @ [?ig]) = map (\<lambda>q. (q, glob h q)) (?old @ [?ig])"
    using ugn by (auto simp: g1)
  have lg: "?ug < length (globs h1)" using g lg1 by simp
  note ff = finalize_fold[OF lg ugn]
  have g2: "\<And>x. glob h2 x = (if x = ?ug
        then finalizedGlobals ((glob h ?ug)\<lparr>gparents := ?old @ [?ig]\<rparr>) (map (\<lambda>q. (q, glob h q)) (?old @ [?ig]))
        else glob h x)"
    and p2: "profs h2 = profs h"
    using ff unfolding h2_def Globals_FinalizeInheritance_def g1u same
    by (simp_all add: g1 p1)
  have g3: "\<And>x. glob h3 x = glob h2 x" by (simp add: h3_def InsertParent_def)
  have p3: "\<And>x. prof h3 x = (if x = ?ub then (prof h ?ub)\<lparr>parents := parents (prof h ?ub) @ [?ib]\<rparr> else prof h x)"
    and l3: "length (profs h3) = length (profs h)"
  proof -
    have e: "\<And>y. prof h2 y = prof h y" using p2 by (simp add: prof_def)
    show "\<And>x. prof h3 x = (if x = ?ub then (prof h ?ub)\<lparr>parents := parents (prof h ?ub) @ [?ib]\<rparr> else prof h x)"
      using b p2 by (simp add: h3_def InsertParent_def prof_upd_prof e)
    show "length (profs h3) = length (profs h)"
      using p2 by (simp add: h3_def InsertParent_def)
  qed
  have v3: "\<forall>p\<in>set ?ps. p < length (profs h3)" using v l3 by simp
  note fi = fold_InsertParentAt[OF d v3, of ?ub, unfolded Profile_FinalizeInheritance_def]
  have pf: "\<And>x. prof h' x = (if x \<in> set ?ps then (prof h3 x)\<lparr>parents := ?ub # parents (prof h3 x)\<rparr> else prof h3 x)"
    and gf: "globs h' = globs h3" and lf: "length (profs h') = length (profs h)"
    using fi l3 unfolding h' by simp_all
  have gl: "\<And>x. glob h' x = glob h2 x" using gf g3 by (simp add: glob_def)
  have c2: "gparents (glob h' ?ug) = ?old @ [?ig]"
    by (simp add: gl g2 finalizedGlobals_def)
  have c3: "glob h' ?ug = finalizedGlobals ((glob h ?ug)\<lparr>gparents := ?old @ [?ig]\<rparr>)
              (map (\<lambda>q. (q, glob h q)) (?old @ [?ig]))"
    by (simp add: gl g2)
  have c4: "\<forall>x. x \<noteq> ?ug \<longrightarrow> glob h' x = glob h x" by (simp add: gl g2)
  have c5: "prof h' ?ub = (prof h ?ub)\<lparr>parents := parents (prof h ?ub) @ [?ib]\<rparr>"
    using bp by (simp add: pf p3)
  have c6: "\<forall>p\<in>set ?ps. prof h' p = (prof h p)\<lparr>parents := ?ub # parents (prof h p)\<rparr>"
    using bp by (auto simp: pf p3)
  have c7: "\<forall>x. x \<noteq> ?ub \<and> x \<notin> set ?ps \<longrightarrow> prof h' x = prof h x"
    by (simp add: pf p3)
  have c8: "\<forall>p\<in>set ?ps. \<forall>k val. explicit (prof h p) k = Some val \<longrightarrow> Resolved h' k p = Some (Some val)"
  proof (intro ballI allI impI)
    fix p k val assume p: "p \<in> set ?ps" and e: "explicit (prof h p) k = Some val"
    have "explicit (prof h' p) k = Some val" using c6 p e by simp
    moreover have "p < length (profs h')" using v p lf by simp
    ultimately show "Resolved h' k p = Some (Some val)" by (rule Resolved_own[rotated])
  qed
  have c9: "\<forall>p\<in>set ?ps. \<forall>k val. explicit (prof h p) k = None \<and> explicit (prof h ?ub) k = Some val
           \<longrightarrow> Resolved h' k p = Some (Some val)"
  proof (intro ballI allI impI)
    fix p k val assume p: "p \<in> set ?ps"
      and e: "explicit (prof h p) k = None \<and> explicit (prof h ?ub) k = Some val"
    have 1: "p < length (profs h')" "?ub < length (profs h')" "p \<noteq> ?ub"
      using v p lf b bp by auto
    have 2: "explicit (prof h' p) k = None" "parents (prof h' p) = ?ub # parents (prof h p)"
      using c6 p e by simp_all
    have 3: "explicit (prof h' ?ub) k = Some val" using c5 e by simp
    from Resolved_first_parent[OF 1 2 3] show "Resolved h' k p = Some (Some val)" .
  qed
  show ?thesis
    apply (intro conjI)
            apply (rule l)
           apply (rule c2)
          apply (rule c3)
         apply (rule c4)
        apply (rule c5)
       apply (rule c6)
      apply (rule c7)
     apply (rule c8)
    apply (rule c9)
    done
qed


lemma layer_facts:
  "globals (userSettings layerLoader) = Suc 0" "globals (inboxSettings layerLoader) = 0"
  "baseLayerProfile (userSettings layerLoader) = 3" "baseLayerProfile (inboxSettings layerLoader) = 2"
  "profiles (userSettings layerLoader) = [Suc 0]"
  "length (profs layerHeap) = 4" "length (globs layerHeap) = 2"
  "gparents (glob layerHeap (Suc 0)) = []"
  "parents (prof layerHeap (Suc 0)) = [0]"
  "parents (prof layerHeap 3) = []"
  "explicit (prof layerHeap (Suc 0)) (PK Commandline) = None"
  "explicit (prof layerHeap 3) (PK Commandline) = Some ''defaults.exe''"
  "explicit (prof layerHeap 0) (PK Commandline) = Some ''inbox.exe''"
  "colorSchemes (glob layerHeap (Suc 0)) = (\<lambda>k. None)"
  "colorSchemes (glob layerHeap 0) ''Campbell'' = Some \<lparr>scheme_name = ''Campbell'', scheme_table = []\<rparr>"
  by (simp_all add: layerLoader_def layerHeap_def prof_def glob_def sampleProfile_def
      make_Profile_def make_Globals_def)

theorem C1_FinalizeLayering_witness:
  "\<exists>h'. FinalizeLayering (layerHeap, layerLoader) = (h', layerLoader)
     \<and> gparents (glob h' 1) = [0]
     \<and> colorSchemes (glob h' 1) ''Campbell'' = Some \<lparr>scheme_name = ''Campbell'', scheme_table = []\<rparr>
     \<and> parents (prof h' 3) = [2]
     \<and> parents (prof h' 1) = [3, 0]
     \<and> Resolved h' (PK Commandline) 1 = Some (Some ''defaults.exe'')"
proof -
  obtain h' l' where run: "FinalizeLayering (layerHeap, layerLoader) = (h', l')"
    by (cases "FinalizeLayering (layerHeap, layerLoader)") auto
  have "globals (userSettings layerLoader) < length (globs layerHeap)"
    "globals (userSettings layerLoader) \<notin> set (gparents (glob layerHeap (globals (userSettings layerLoader))))"
    "globals (userSettings layerLoader) \<noteq> globals (inboxSettings layerLoader)"
    "baseLayerProfile (userSettings layerLoader) < length (profs layerHeap)"
    "baseLayerProfile (userSettings layerLoader) \<notin> set (profiles (userSettings layerLoader))"
    "distinct (profiles (userSettings layerLoader))"
    "\<forall>p\<in>set (profiles (userSettings layerLoader)). p < length (profs layerHeap)"
    by (simp_all add: layer_facts)
  note c = C1_FinalizeLayering[OF this run]
  have 0: "l' = layerLoader" using c by simp
  have 1: "gparents (glob h' 1) = [0]" using c by (simp add: layer_facts finalizedGlobals_def)
  have 2: "colorSchemes (glob h' 1) ''Campbell'' = Some \<lparr>scheme_name = ''Campbell'', scheme_table = []\<rparr>"
    using c by (simp add: layer_facts finalizedGlobals_def)
  have 3: "parents (prof h' 3) = [2]" using c by (simp add: layer_facts)
  have 4: "parents (prof h' 1) = [3, 0]" using c by (simp add: layer_facts)
  have 5: "Resolved h' (PK Commandline) 1 = Some (Some ''defaults.exe'')"
    using c by (simp add: layer_facts)
  from run 0 1 2 3 4 5 show ?thesis by simp
qed

text \<open>
  C1, as stated, has the defaults "apply with lowest precedence among profile-local
  parents". On the sample loader the user profile inherits a command line from its inbox
  parent before \<^verbatim>\<open>FinalizeLayering\<close>; afterwards its parents are the user defaults and then
  the inbox profile, and it resolves the command line to the value of the defaults.
\<close>

theorem C1_defaults_first_counterexample:
  "Resolved layerHeap (PK Commandline) 1 = Some (Some ''inbox.exe'')
   \<and> parents (prof (fst (FinalizeLayering (layerHeap, layerLoader))) 1) = [3, 0]
   \<and> Resolved (fst (FinalizeLayering (layerHeap, layerLoader))) (PK Commandline) 1
        = Some (Some ''defaults.exe'')
   \<and> Resolved (fst (FinalizeLayering (layerHeap, layerLoader))) (PK Commandline) 1
        \<noteq> Some (Some ''inbox.exe'')"
  by (simp add: FinalizeLayering_def Let_def layerLoader_def layerHeap_def
      Globals_InsertParent_def Globals_FinalizeInheritance_def InsertParent_def InsertParentAt_def
      Profile_FinalizeInheritance_def upd_glob_def upd_prof_def glob_def prof_def
      Resolved_def resolve_def sampleProfile_def make_Profile_def make_Globals_def)



section \<open>Merging fragment profiles\<close>

lemma prof_SetSource:
  "prof (SetSource src a h) b = (if b = a \<and> a < length (profs h) then (prof h a)\<lparr>source := src\<rparr> else prof h b)"
  by (simp add: SetSource_def prof_upd_prof)

lemma length_SetSource [simp]: "length (profs (SetSource src a h)) = length (profs h)"
  by (simp add: SetSource_def)

lemma prof_InsertParentAt:
  "prof (InsertParentAt c i p h) b =
     (if b = c \<and> c < length (profs h)
      then (prof h c)\<lparr>parents := take i (parents (prof h c)) @ p # drop i (parents (prof h c))\<rparr>
      else prof h b)"
  by (simp add: InsertParentAt_def prof_upd_prof)

lemma length_InsertParentAt [simp]: "length (profs (InsertParentAt c i p h)) = length (profs h)"
  by (simp add: InsertParentAt_def)

lemma prof_ReproduceProfile:
  assumes "parent < length (profs h)" "ReproduceProfile env parent h = (child, h')"
  shows "child = length (profs h) \<and> length (profs h') = Suc (length (profs h))
       \<and> prof h' child = make_Profile\<lparr>origin := User, name := name (prof h parent),
              guid := Some (Guid env (prof h parent)), hidden := hidden (prof h parent),
              parents := [parent]\<rparr>
       \<and> (\<forall>x<length (profs h). prof h' x = prof h x) \<and> globs h' = globs h"
  using assms
  by (auto simp: ReproduceProfile_eq prof_def nth_append)

lemma mergeFragmentProfiles_Cons:
  "mergeFragmentProfiles env src (f # rest) st
     = mergeFragmentProfiles env src rest (mergeFragmentProfiles env src [f] st)"
  by (cases st) (simp split: option.splits prod.splits)

text \<open>Fragment profiles are processed one after the other (\<open>mergeFragmentProfiles_Cons\<close>),
  and one fragment profile \<open>f\<close> is handled as follows.
  \<^item> If \<open>f\<close> carries a non-empty \<open>updates\<close> GUID which the user GUID index maps to a
    profile \<open>t\<close>, then \<open>f\<close> (with its source set to the fragment's namespace) becomes the
    parent of \<open>t\<close> at position 0 and nothing else changes: a value set on \<open>t\<close> itself still
    resolves to that value, and a value \<open>t\<close> does not set but \<open>f\<close> sets resolves to the
    fragment's value, whatever the other parents of \<open>t\<close> say. The index decides which
    profile \<open>t\<close> is; it need not be a profile of the user profile list.
  \<^item> If \<open>f\<close> carries a non-empty \<open>updates\<close> GUID which the index does not know, \<open>f\<close> is
    dropped: heap, warnings and user settings are unchanged.
  \<^item> If \<open>f\<close> carries no \<open>updates\<close> GUID and its own GUID is not yet indexed, a user-origin
    profile with the fragment's name, GUID and hidden flag and the single parent \<open>f\<close> is
    appended to the user profile list and indexed.
  \<^item> If \<open>f\<close> carries no \<open>updates\<close> GUID and its GUID is already indexed, the user profile list
    is unchanged and a \<open>DuplicateProfile\<close> warning is recorded.\<close>

lemma mergeFragmentProfiles_step:
  assumes f: "f < length (profs h)"
  shows
    "(updates (prof h f) \<noteq> 0 \<and> profilesByGuid user (updates (prof h f)) = Some t
        \<and> t < length (profs h) \<and> t \<noteq> f
      \<longrightarrow> (\<exists>h'. mergeFragmentProfiles env src [f] (h, ws, user) = (h', ws, user)
             \<and> prof h' t = (prof h t)\<lparr>parents := f # parents (prof h t)\<rparr>
             \<and> prof h' f = (prof h f)\<lparr>source := src\<rparr>
             \<and> (\<forall>x. x \<noteq> t \<and> x \<noteq> f \<longrightarrow> prof h' x = prof h x)
             \<and> (\<forall>k v. explicit (prof h t) k = Some v \<longrightarrow> Resolved h' k t = Some (Some v))
             \<and> (\<forall>k v. explicit (prof h t) k = None \<and> explicit (prof h f) k = Some v
                    \<longrightarrow> Resolved h' k t = Some (Some v))))
   \<and> (updates (prof h f) \<noteq> 0 \<and> profilesByGuid user (updates (prof h f)) = None
      \<longrightarrow> mergeFragmentProfiles env src [f] (h, ws, user) = (h, ws, user))
   \<and> (updates (prof h f) = 0
        \<and> profilesByGuid user (Guid env ((prof h f)\<lparr>source := src\<rparr>)) = None
      \<longrightarrow> (\<exists>h'. mergeFragmentProfiles env src [f] (h, ws, user)
                   = (h', ws, user\<lparr>profilesByGuid := (profilesByGuid user)
                                        (Guid env ((prof h f)\<lparr>source := src\<rparr>) \<mapsto> length (profs h)),
                                    profiles := profiles user @ [length (profs h)]\<rparr>)
             \<and> prof h' (length (profs h))
                  = make_Profile\<lparr>origin := User, name := name (prof h f),
                      guid := Some (Guid env ((prof h f)\<lparr>source := src\<rparr>)),
                      hidden := hidden (prof h f), parents := [f]\<rparr>
             \<and> prof h' f = (prof h f)\<lparr>source := src\<rparr>
             \<and> (\<forall>x<length (profs h). x \<noteq> f \<longrightarrow> prof h' x = prof h x)))
   \<and> (updates (prof h f) = 0
        \<and> profilesByGuid user (Guid env ((prof h f)\<lparr>source := src\<rparr>)) \<noteq> None
      \<longrightarrow> (\<exists>h'. mergeFragmentProfiles env src [f] (h, ws, user)
                   = (h', ws @ [DuplicateProfile], user)
             \<and> (\<forall>x<length (profs h). x \<noteq> f \<longrightarrow> prof h' x = prof h x)))"
proof (intro conjI impI)
  assume a: "updates (prof h f) \<noteq> 0 \<and> profilesByGuid user (updates (prof h f)) = None"
  then show "mergeFragmentProfiles env src [f] (h, ws, user) = (h, ws, user)" by simp
next
  assume a: "updates (prof h f) \<noteq> 0 \<and> profilesByGuid user (updates (prof h f)) = Some t
        \<and> t < length (profs h) \<and> t \<noteq> f"
  let ?h' = "InsertParentAt t 0 f (SetSource src f h)"
  have run: "mergeFragmentProfiles env src [f] (h, ws, user) = (?h', ws, user)" using a by simp
  have pt: "prof ?h' t = (prof h t)\<lparr>parents := f # parents (prof h t)\<rparr>"
    using a f by (simp add: prof_InsertParentAt prof_SetSource)
  have pf: "prof ?h' f = (prof h f)\<lparr>source := src\<rparr>"
    using a f by (simp add: prof_InsertParentAt prof_SetSource)
  have po: "\<forall>x. x \<noteq> t \<and> x \<noteq> f \<longrightarrow> prof ?h' x = prof h x"
    by (simp add: prof_InsertParentAt prof_SetSource)
  have l: "length (profs ?h') = length (profs h)" by simp
  have own: "\<forall>k v. explicit (prof h t) k = Some v \<longrightarrow> Resolved ?h' k t = Some (Some v)"
  proof (intro allI impI)
    fix k v assume "explicit (prof h t) k = Some v"
    then have "explicit (prof ?h' t) k = Some v" using pt by simp
    moreover have "t < length (profs ?h')" using a l by simp
    ultimately show "Resolved ?h' k t = Some (Some v)" by (rule Resolved_own[rotated])
  qed
  have frag: "\<forall>k v. explicit (prof h t) k = None \<and> explicit (prof h f) k = Some v
                    \<longrightarrow> Resolved ?h' k t = Some (Some v)"
  proof (intro allI impI)
    fix k v assume e: "explicit (prof h t) k = None \<and> explicit (prof h f) k = Some v"
    have 1: "t < length (profs ?h')" "f < length (profs ?h')" "t \<noteq> f" using a f l by simp_all
    have 2: "explicit (prof ?h' t) k = None" "parents (prof ?h' t) = f # parents (prof h t)"
      using pt e by simp_all
    have 3: "explicit (prof ?h' f) k = Some v" using pf e by simp
    from Resolved_first_parent[OF 1 2 3] show "Resolved ?h' k t = Some (Some v)" .
  qed
  from run pt pf po own frag
  show "\<exists>h'. mergeFragmentProfiles env src [f] (h, ws, user) = (h', ws, user)
             \<and> prof h' t = (prof h t)\<lparr>parents := f # parents (prof h t)\<rparr>
             \<and> prof h' f = (prof h f)\<lparr>source := src\<rparr>
             \<and> (\<forall>x. x \<noteq> t \<and> x \<noteq> f \<longrightarrow> prof h' x = prof h x)
             \<and> (\<forall>k v. explicit (prof h t) k = Some v \<longrightarrow> Resolved h' k t = Some (Some v))
             \<and> (\<forall>k v. explicit (prof h t) k = None \<and> explicit (prof h f) k = Some v
                    \<longrightarrow> Resolved h' k t = Some (Some v))"
    by blast
next
  let ?h1 = "SetSource src f h"
  let ?G = "Guid env ((prof h f)\<lparr>source := src\<rparr>)"
  obtain child h2 where rp: "ReproduceProfile env f ?h1 = (child, h2)"
    by (cases "ReproduceProfile env f ?h1") auto
  have f1: "f < length (profs ?h1)" using f by simp
  note r = prof_ReproduceProfile[OF f1 rp]
  have p1: "prof ?h1 f = (prof h f)\<lparr>source := src\<rparr>" using f by (simp add: prof_SetSource)
  have ch: "child = length (profs h)" using r by simp
  have pc: "prof h2 (length (profs h)) = make_Profile\<lparr>origin := User, name := name (prof h f),
                      guid := Some ?G, hidden := hidden (prof h f), parents := [f]\<rparr>"
    using r p1 ch by simp
  have gc: "Guid env (prof h2 child) = ?G" unfolding ch pc by (simp add: Guid_def)
  have pf2: "prof h2 f = (prof h f)\<lparr>source := src\<rparr>" using r f1 p1 by simp
  have po2: "\<forall>x<length (profs h). x \<noteq> f \<longrightarrow> prof h2 x = prof h x"
    using r by (simp add: prof_SetSource)
  {
    assume a: "updates (prof h f) = 0 \<and> profilesByGuid user ?G = None"
    then have "mergeFragmentProfiles env src [f] (h, ws, user)
        = (h2, ws, user\<lparr>profilesByGuid := (profilesByGuid user)(?G \<mapsto> length (profs h)),
                         profiles := profiles user @ [length (profs h)]\<rparr>)"
      using rp gc ch by (simp add: appendProfile_def)
    with pc pf2 po2
    show "\<exists>h'. mergeFragmentProfiles env src [f] (h, ws, user)
                   = (h', ws, user\<lparr>profilesByGuid := (profilesByGuid user)(?G \<mapsto> length (profs h)),
                                    profiles := profiles user @ [length (profs h)]\<rparr>)
             \<and> prof h' (length (profs h))
                  = make_Profile\<lparr>origin := User, name := name (prof h f),
                      guid := Some ?G, hidden := hidden (prof h f), parents := [f]\<rparr>
             \<and> prof h' f = (prof h f)\<lparr>source := src\<rparr>
             \<and> (\<forall>x<length (profs h). x \<noteq> f \<longrightarrow> prof h' x = prof h x)"
      by blast
  next
    assume a: "updates (prof h f) = 0 \<and> profilesByGuid user ?G \<noteq> None"
    then have "mergeFragmentProfiles env src [f] (h, ws, user) = (h2, ws @ [DuplicateProfile], user)"
      using rp gc by (auto simp: appendProfile_def)
    with po2
    show "\<exists>h'. mergeFragmentProfiles env src [f] (h, ws, user) = (h', ws @ [DuplicateProfile], user)
             \<and> (\<forall>x<length (profs h). x \<noteq> f \<longrightarrow> prof h' x = prof h x)"
      by blast
  }
qed


lemma fragment_facts:
  "length (profs fragmentHeap) = 6"
  "profiles fragmentUser = [Suc 0]"
  "profilesByGuid fragmentUser = [1 \<mapsto> Suc 0]"
  "updates (prof fragmentHeap 2) = 1" "updates (prof fragmentHeap 3) = 9"
  "updates (prof fragmentHeap 4) = 0"
  "guid (prof fragmentHeap 4) = Some 8" "name (prof fragmentHeap 4) = ''new shell''"
  "hidden (prof fragmentHeap 4) = False"
  "parents (prof fragmentHeap (Suc 0)) = [0]"
  "explicit (prof fragmentHeap (Suc 0)) (PK Icon) = Some ''user.ico''"
  "explicit (prof fragmentHeap (Suc 0)) (PK Commandline) = None"
  "explicit (prof fragmentHeap 2) (PK Commandline) = Some ''fragment.exe''"
  "explicit (prof fragmentHeap 2) (PK Icon) = Some ''fragment.ico''"
  "explicit (prof fragmentHeap 0) (PK Commandline) = Some ''inbox.exe''"
  by (simp_all add: fragmentHeap_def fragmentUser_def prof_def sampleProfile_def make_Profile_def)

lemma mergeFragmentProfiles_sample:
  "(\<exists>h'. mergeFragmentProfiles sampleEnv ''ext'' [2] (fragmentHeap, [], fragmentUser)
            = (h', [], fragmentUser)
      \<and> parents (prof h' 1) = [2, 0]
      \<and> source (prof h' 2) = ''ext''
      \<and> Resolved h' (PK Commandline) 1 = Some (Some ''fragment.exe'')
      \<and> Resolved h' (PK Icon) 1 = Some (Some ''user.ico''))
   \<and> Resolved fragmentHeap (PK Commandline) 1 = Some (Some ''inbox.exe'')
   \<and> mergeFragmentProfiles sampleEnv ''ext'' [3] (fragmentHeap, [], fragmentUser)
        = (fragmentHeap, [], fragmentUser)
   \<and> (\<exists>h'. mergeFragmentProfiles sampleEnv ''ext'' [4] (fragmentHeap, [], fragmentUser)
            = (h', [], fragmentUser\<lparr>profilesByGuid := [1 \<mapsto> 1, 8 \<mapsto> 6], profiles := [1, 6]\<rparr>)
      \<and> origin (prof h' 6) = User \<and> name (prof h' 6) = ''new shell''
      \<and> guid (prof h' 6) = Some 8 \<and> parents (prof h' 6) = [4])"
proof -
  have a: "updates (prof fragmentHeap 2) \<noteq> 0
      \<and> profilesByGuid fragmentUser (updates (prof fragmentHeap 2)) = Some 1
      \<and> 1 < length (profs fragmentHeap) \<and> (1::nat) \<noteq> 2"
    by (simp add: fragment_facts)
  have "2 < length (profs fragmentHeap)" by (simp add: fragment_facts)
  from mergeFragmentProfiles_step[OF this, of fragmentUser 1 sampleEnv "''ext''" "[]"] a
  obtain h' where h':
    "mergeFragmentProfiles sampleEnv ''ext'' [2] (fragmentHeap, [], fragmentUser) = (h', [], fragmentUser)"
    "prof h' 1 = (prof fragmentHeap 1)\<lparr>parents := 2 # parents (prof fragmentHeap 1)\<rparr>"
    "prof h' 2 = (prof fragmentHeap 2)\<lparr>source := ''ext''\<rparr>"
    "\<forall>k v. explicit (prof fragmentHeap 1) k = Some v \<longrightarrow> Resolved h' k 1 = Some (Some v)"
    "\<forall>k v. explicit (prof fragmentHeap 1) k = None \<and> explicit (prof fragmentHeap 2) k = Some v
             \<longrightarrow> Resolved h' k 1 = Some (Some v)"
    by blast
  have 1: "parents (prof h' 1) = [2, 0]" "source (prof h' 2) = ''ext''"
    using h'(2,3) by (simp_all add: fragment_facts)
  have 2: "Resolved h' (PK Commandline) 1 = Some (Some ''fragment.exe'')"
    using h'(5) by (simp add: fragment_facts)
  have 3: "Resolved h' (PK Icon) 1 = Some (Some ''user.ico'')"
    using h'(4) by (simp add: fragment_facts)
  have 4: "Resolved fragmentHeap (PK Commandline) 1 = Some (Some ''inbox.exe'')"
    by (rule Resolved_first_parent[where b=0 and rest="[]"]) (simp_all add: fragment_facts)
  have "3 < length (profs fragmentHeap)" by (simp add: fragment_facts)
  from mergeFragmentProfiles_step[OF this, of fragmentUser 1 sampleEnv "''ext''" "[]"]
  have 5: "mergeFragmentProfiles sampleEnv ''ext'' [3] (fragmentHeap, [], fragmentUser)
        = (fragmentHeap, [], fragmentUser)"
    by (simp add: fragment_facts)
  have g: "Guid sampleEnv ((prof fragmentHeap 4)\<lparr>source := ''ext''\<rparr>) = 8"
    by (simp add: Guid_def fragment_facts)
  have "4 < length (profs fragmentHeap)" by (simp add: fragment_facts)
  from mergeFragmentProfiles_step[OF this, of fragmentUser 1 sampleEnv "''ext''" "[]"]
  obtain h4 where h4:
    "mergeFragmentProfiles sampleEnv ''ext'' [4] (fragmentHeap, [], fragmentUser)
       = (h4, [], fragmentUser\<lparr>profilesByGuid := (profilesByGuid fragmentUser)(8 \<mapsto> 6),
                               profiles := profiles fragmentUser @ [6]\<rparr>)"
    "prof h4 6 = make_Profile\<lparr>origin := User, name := name (prof fragmentHeap 4),
         guid := Some 8, hidden := hidden (prof fragmentHeap 4), parents := [4]\<rparr>"
    unfolding g by (auto simp: fragment_facts)
  have 6: "mergeFragmentProfiles sampleEnv ''ext'' [4] (fragmentHeap, [], fragmentUser)
            = (h4, [], fragmentUser\<lparr>profilesByGuid := [1 \<mapsto> 1, 8 \<mapsto> 6], profiles := [1, 6]\<rparr>)"
    unfolding h4(1) by (simp add: fragment_facts)
  have 7: "origin (prof h4 6) = User \<and> name (prof h4 6) = ''new shell''
      \<and> guid (prof h4 6) = Some 8 \<and> parents (prof h4 6) = [4]"
    unfolding h4(2) by (simp add: fragment_facts)
  from h'(1) 1 2 3 4 5 6 7 show ?thesis by blast
qed

text \<open>A fragment profile whose \<open>updates\<close> GUID names no indexed profile is dropped: the user
  profile list stays as it was and no profile gets the fragment profile as a parent.\<close>

lemma mergeFragmentProfiles_unmatched_updates:
  "updates (prof fragmentHeap 3) \<noteq> 0
   \<and> profilesByGuid fragmentUser (updates (prof fragmentHeap 3)) = None
   \<and> mergeFragmentProfiles sampleEnv ''ext'' [3] (fragmentHeap, [], fragmentUser)
        = (fragmentHeap, [], fragmentUser)
   \<and> profiles fragmentUser = [1]
   \<and> 3 \<notin> set (concat (map (\<lambda>a. parents (prof fragmentHeap a)) [0..<length (profs fragmentHeap)]))"
  by (simp add: fragmentHeap_def fragmentUser_def prof_def sampleProfile_def make_Profile_def
      upt_rec)


section \<open>Duplicating a profile\<close>

lemma differOnly_refl: "differOnlyInSettingsOf d h h"
  by (simp add: differOnlyInSettingsOf_def)

lemma differOnly_trans:
  "differOnlyInSettingsOf d h h1 \<Longrightarrow> differOnlyInSettingsOf d h1 h2 \<Longrightarrow> differOnlyInSettingsOf d h h2"
  by (simp add: differOnlyInSettingsOf_def)

lemma differOnly_Set: "differOnlyInSettingsOf d h (Set k v d h)"
  by (simp add: differOnlyInSettingsOf_def Set_def prof_upd_prof)

lemma differOnly_unfocused:
  "differOnlyInSettingsOf d h (upd_prof d (\<lambda>p. p\<lparr>unfocused := Some u\<rparr>) h)"
  by (simp add: differOnlyInSettingsOf_def prof_upd_prof)

lemma differOnly_parents:
  "differOnlyInSettingsOf d h h' \<Longrightarrow> a < length (profs h) \<Longrightarrow> parents (prof h' a) = parents (prof h a)"
  by (cases "a = d") (simp_all add: differOnlyInSettingsOf_def)

lemma ranked_differOnly:
  assumes "ranked h r" "differOnlyInSettingsOf d h h'"
  shows "ranked h' r"
proof -
  have l: "length (profs h') = length (profs h)" using assms(2) by (simp add: differOnlyInSettingsOf_def)
  show ?thesis
    unfolding ranked_def l
    using assms(1) differOnly_parents[OF assms(2)] by (simp add: ranked_def)
qed

lemma parents_return:
  assumes "ranked h r" "a < length (profs h)"
  shows "getFromParents (length (profs h) - 1) h f (parents (prof h a)) \<noteq> None"
proof (rule getFromParents_returns)
  fix p assume p: "p \<in> set (parents (prof h a))"
  from assms p have 1: "p < length (profs h)" "r p < r a" "r a < length (profs h)"
    by (auto simp: ranked_def)
  then have "r p < length (profs h) - 1" by simp
  from getImpl_returns[OF assms(1) 1(1) this]
  show "getImpl (length (profs h) - 1) h f p \<noteq> None" .
qed

lemma NEEDS_DUPLICATION_returns:
  assumes "ranked h r" "src < length (profs h)"
  shows "\<exists>b. NEEDS_DUPLICATION h k src = Inr b"
  using parents_return[OF assms, of "\<lambda>p. explicit p k"]
  by (auto simp: NEEDS_DUPLICATION_def OverrideSource_def split: option.splits)

lemma DUPLICATE_SETTING_MACRO_step:
  assumes "ranked h r" "src < length (profs h)"
  shows "\<exists>h'. DUPLICATE_SETTING_MACRO env src d k h = Inr h' \<and> differOnlyInSettingsOf d h h'"
proof -
  obtain b where b: "NEEDS_DUPLICATION h k src = Inr b"
    using NEEDS_DUPLICATION_returns[OF assms] by blast
  obtain v where v: "Get env h k src = Some v" using Get_returns[OF assms] by blast
  show ?thesis
    by (cases b) (simp_all add: DUPLICATE_SETTING_MACRO_def andThen_def b v differOnly_Set differOnly_refl)
qed

lemma forEach_DUPLICATE_SETTING_MACRO:
  assumes "ranked h r" "src < length (profs h)"
  shows "\<exists>h'. forEach (DUPLICATE_SETTING_MACRO env src d) ks h = Inr h' \<and> differOnlyInSettingsOf d h h'"
proof (rule forEach_total[where I="\<lambda>s. differOnlyInSettingsOf d h s"])
  show "differOnlyInSettingsOf d h h" by (rule differOnly_refl)
next
  fix k and s :: Heap
  assume s: "differOnlyInSettingsOf d h s"
  have 1: "ranked s r" using assms(1) s by (rule ranked_differOnly)
  have 2: "src < length (profs s)" using assms(2) s by (simp add: differOnlyInSettingsOf_def)
  from DUPLICATE_SETTING_MACRO_step[OF 1 2, of env d k] s
  show "\<exists>s'. DUPLICATE_SETTING_MACRO env src d k s = Inr s' \<and> differOnlyInSettingsOf d h s'"
    using differOnly_trans by blast
qed

lemma duplicateUnfocusedAppearance_step:
  assumes "ranked h r" "src < length (profs h)"
  shows "\<exists>h'. duplicateUnfocusedAppearance src d h = Inr h' \<and> differOnlyInSettingsOf d h h'"
proof -
  obtain n where n: "length (profs h) = Suc n" using assms(2) by (cases "length (profs h)") auto
  show ?thesis
  proof (cases "unfocused (prof h src)")
    case (Some u)
    then have "UnfocusedAppearance h src = Some (Some (src, u))"
      using assms(2) by (simp add: UnfocusedAppearance_def resolve_def n)
    with Some show ?thesis
      by (simp add: duplicateUnfocusedAppearance_def andThen_def differOnly_unfocused)
  next
    case None
    from parents_return[OF assms, of unfocused] obtain ow where
      ow: "getFromParents (length (profs h) - 1) h unfocused (parents (prof h src)) = Some ow"
      by auto
    have r: "UnfocusedAppearance h src = Some ow"
      using ow None assms(2) by (simp add: UnfocusedAppearance_def resolve_def n)
    show ?thesis
    proof (cases ow)
      case None
      with \<open>unfocused (prof h src) = None\<close> ow show ?thesis
        by (simp add: duplicateUnfocusedAppearance_def andThen_def isProfilesDefaultsOrigin_def
            differOnly_refl)
    next
      case (Some x)
      with \<open>unfocused (prof h src) = None\<close> ow r show ?thesis
        by (cases x)
           (simp add: duplicateUnfocusedAppearance_def andThen_def isProfilesDefaultsOrigin_def
            differOnly_refl differOnly_unfocused)
    qed
  qed
qed

lemma duplicateConnectionType_step:
  assumes "ranked h r" "src < length (profs h)"
  shows "\<exists>h'. duplicateConnectionType env src d h = Inr h' \<and> differOnlyInSettingsOf d h h'"
proof -
  obtain v where v: "Get env h (PK ConnectionType) src = Some v" using Get_returns[OF assms] by blast
  show ?thesis by (simp add: duplicateConnectionType_def v differOnly_Set differOnly_refl)
qed

lemma createNewProfile_eq:
  assumes "cs_baseLayerProfile s < length (profs h)"
  shows "createNewProfile env g nm (h, s) =
     (length (profs h),
      h\<lparr>profs := profs h @
          [make_Profile\<lparr>origin := User, name := nm, guid := Some g,
                        hidden := hidden (prof h (cs_baseLayerProfile s)),
                        parents := [cs_baseLayerProfile s]\<rparr>]\<rparr>)"
  using assms
  by (simp add: createNewProfile_def ReproduceProfile_eq upd_prof_def prof_def nth_append
      make_Profile_def)

lemma ranked_extend:
  assumes "ranked h r" "b < length (profs h)" "parents p = [b]"
  shows "ranked (h\<lparr>profs := profs h @ [p]\<rparr>) (r(length (profs h) := length (profs h)))"
  using assms
  by (auto simp: ranked_def prof_def nth_append less_Suc_eq)

lemma getFromParents_agree:
  assumes "\<And>p. p \<in> set ps \<Longrightarrow> getImpl n h' f p = getImpl m h f p"
  shows "getFromParents n h' f ps = getFromParents m h f ps"
  using assms by (induction ps) (simp_all split: option.splits)

lemma getImpl_agree:
  assumes "ranked h r" "length (profs h) \<le> length (profs h')"
    and "\<And>x. x < length (profs h) \<Longrightarrow> prof h' x = prof h x"
  shows "a < length (profs h) \<Longrightarrow> r a < n \<Longrightarrow> r a < m \<Longrightarrow> getImpl n h' f a = getImpl m h f a"
proof (induction n arbitrary: m a)
  case 0
  then show ?case by simp
next
  case (Suc n)
  from Suc.prems(3) obtain m' where m: "m = Suc m'" by (cases m) auto
  have "getFromParents n h' f (parents (prof h a)) = getFromParents m' h f (parents (prof h a))"
  proof (rule getFromParents_agree)
    fix p assume "p \<in> set (parents (prof h a))"
    with assms(1) Suc.prems(1) have "p < length (profs h)" "r p < r a" by (auto simp: ranked_def)
    with Suc.prems(2,3) m show "getImpl n h' f p = getImpl m' h f p"
      by (intro Suc.IH) auto
  qed
  with Suc.prems(1) assms(2) assms(3)[OF Suc.prems(1)] show ?case
    by (simp add: m split: option.splits)
qed

lemma parents_agree:
  assumes "ranked h r" "length (profs h) \<le> length (profs h')"
    and "\<And>x. x < length (profs h) \<Longrightarrow> prof h' x = prof h x"
    and "a < length (profs h)"
  shows "getFromParents (length (profs h') - 1) h' f (parents (prof h' a))
           = getFromParents (length (profs h) - 1) h f (parents (prof h a))"
  unfolding assms(3)[OF assms(4)]
proof (rule getFromParents_agree)
  fix p assume "p \<in> set (parents (prof h a))"
  with assms(1,4) have 1: "p < length (profs h)" "r p < r a" "r a < length (profs h)"
    by (auto simp: ranked_def)
  with assms(2) have 2: "r p < length (profs h') - 1" "r p < length (profs h) - 1" by auto
  from getImpl_agree[OF assms(1,2,3) 1(1) 2]
  show "getImpl (length (profs h') - 1) h' f p = getImpl (length (profs h) - 1) h f p" .
qed

lemma Get_agree:
  assumes "ranked h r" "length (profs h) \<le> length (profs h')"
    and "\<And>x. x < length (profs h) \<Longrightarrow> prof h' x = prof h x"
    and "a < length (profs h)"
  shows "Get env h' k a = Get env h k a"
proof -
  from assms(1,4) have "r a < length (profs h)" by (simp add: ranked_def)
  with assms(2) have "r a < length (profs h')" by simp
  from getImpl_agree[OF assms(1,2,3) assms(4) this \<open>r a < length (profs h)\<close>,
      where f="\<lambda>p. explicit p k"]
  show ?thesis by (simp add: Get_def Resolved_def resolve_def)
qed

lemma NEEDS_DUPLICATION_agree:
  assumes "ranked h r" "length (profs h) \<le> length (profs h')"
    and "\<And>x. x < length (profs h) \<Longrightarrow> prof h' x = prof h x"
    and "a < length (profs h)"
  shows "NEEDS_DUPLICATION h' k a = NEEDS_DUPLICATION h k a"
proof -
  have has: "Has h' k a = Has h k a" by (simp add: Has_def assms(3)[OF assms(4)])
  have os: "OverrideSource h' k a = OverrideSource h k a"
    by (simp only: OverrideSource_def parents_agree[OF assms, where f="\<lambda>p. explicit p k"])
  have o: "isProfilesDefaultsOrigin h' ow = isProfilesDefaultsOrigin h ow"
    if "OverrideSource h k a = Some ow" for ow
  proof (cases ow)
    case None
    then show ?thesis by (simp add: isProfilesDefaultsOrigin_def)
  next
    case (Some x)
    with that obtain v where
      "getFromParents (length (profs h) - 1) h (\<lambda>p. explicit p k) (parents (prof h a)) = Some (Some (x, v))"
      by (auto simp: OverrideSource_def)
    from getFromParents_owner[OF this] have "x < length (profs h)" by simp
    with Some assms(3) show ?thesis by (simp add: isProfilesDefaultsOrigin_def)
  qed
  show ?thesis
  proof (cases "OverrideSource h k a")
    case None
    then show ?thesis by (simp add: NEEDS_DUPLICATION_def has os)
  next
    case (Some ow)
    with o[OF Some] show ?thesis by (simp add: NEEDS_DUPLICATION_def has os)
  qed
qed

text \<open>What the duplicate gets for one setting.\<close>

lemma DUPLICATE_SETTING_MACRO_eq:
  assumes "ranked h r" "length (profs h) \<le> length (profs hs)"
    and "\<And>x. x < length (profs h) \<Longrightarrow> prof hs x = prof h x"
    and "src < length (profs h)"
  shows "\<exists>v. Get env h k src = Some v
           \<and> DUPLICATE_SETTING_MACRO env src d k hs
               = Inr (if NEEDS_DUPLICATION h k src = Inr True then Set k v d hs else hs)"
proof -
  obtain v where v: "Get env h k src = Some v" using Get_returns[OF assms(1,4)] by blast
  obtain b where b: "NEEDS_DUPLICATION h k src = Inr b"
    using NEEDS_DUPLICATION_returns[OF assms(1,4)] by blast
  show ?thesis
    by (simp add: DUPLICATE_SETTING_MACRO_def NEEDS_DUPLICATION_agree[OF assms] Get_agree[OF assms]
        v b andThen_def)
qed

lemma forEach_DUPLICATE_SETTING_MACRO_explicit:
  assumes "ranked h r" "src < length (profs h)"
  shows "length (profs hs) = Suc (length (profs h))
         \<Longrightarrow> (\<And>x. x < length (profs h) \<Longrightarrow> prof hs x = prof h x)
         \<Longrightarrow> forEach (DUPLICATE_SETTING_MACRO env src (length (profs h))) ks hs = Inr h'
         \<Longrightarrow> explicit (prof h' (length (profs h))) k
              = (if k \<in> set ks \<and> NEEDS_DUPLICATION h k src = Inr True then Get env h k src
                 else explicit (prof hs (length (profs h))) k)"
proof (induction ks arbitrary: hs)
  case Nil
  then show ?case by simp
next
  case (Cons k' ks)
  let ?d = "length (profs h)"
  have le: "length (profs h) \<le> length (profs hs)" using Cons.prems(1) by simp
  from DUPLICATE_SETTING_MACRO_eq[OF assms(1) le Cons.prems(2) assms(2), of env k' ?d]
  obtain v where v: "Get env h k' src = Some v"
    "DUPLICATE_SETTING_MACRO env src ?d k' hs
       = Inr (if NEEDS_DUPLICATION h k' src = Inr True then Set k' v ?d hs else hs)"
    by blast
  define h1 where "h1 = (if NEEDS_DUPLICATION h k' src = Inr True then Set k' v ?d hs else hs)"
  have run: "forEach (DUPLICATE_SETTING_MACRO env src ?d) ks h1 = Inr h'"
    using Cons.prems(3) v(2) by (simp add: andThen_def h1_def)
  have l1: "length (profs h1) = Suc ?d" using Cons.prems(1) by (simp add: h1_def Set_def)
  have o1: "\<And>x. x < ?d \<Longrightarrow> prof h1 x = prof h x"
    using Cons.prems(2) by (simp add: h1_def Set_def prof_upd_prof)
  have e1: "explicit (prof h1 ?d) k
              = (if k = k' \<and> NEEDS_DUPLICATION h k src = Inr True then Get env h k src
                 else explicit (prof hs ?d) k)"
    using Cons.prems(1) v(1) by (auto simp: h1_def Set_def prof_upd_prof)
  from Cons.IH[OF l1 o1 run] e1 show ?case by auto
qed

lemma duplicateUnfocusedAppearance_explicit:
  "duplicateUnfocusedAppearance src d h = Inr h' \<Longrightarrow> explicit (prof h' a) = explicit (prof h a)"
  by (auto simp: duplicateUnfocusedAppearance_def andThen_def prof_upd_prof
      split: if_splits option.splits sum.splits)

lemma duplicateConnectionType_explicit:
  "duplicateConnectionType env src d h = Inr h' \<Longrightarrow> k \<noteq> PK ConnectionType
     \<Longrightarrow> explicit (prof h' a) k = explicit (prof h a) k"
  by (auto simp: duplicateConnectionType_def Set_def prof_upd_prof split: if_splits option.splits)

lemma DuplicateProfile_result:
  assumes "ranked h r" "src < length (profs h)" "cs_baseLayerProfile s < length (profs h)"
  shows "\<exists>h'. CascadiaSettings_DuplicateProfile env g (Some src) (h, s)
          = Inr (length (profs h), h',
                 s\<lparr>cs_allProfiles := cs_allProfiles s @ [length (profs h)],
                   cs_activeProfiles := cs_activeProfiles s @ [length (profs h)]\<rparr>)
      \<and> length (profs h') = Suc (length (profs h))
      \<and> (\<forall>a<length (profs h). prof h' a = prof h a)
      \<and> origin (prof h' (length (profs h))) = User
      \<and> guid (prof h' (length (profs h))) = Some g
      \<and> hidden (prof h' (length (profs h))) = hidden (prof h (cs_baseLayerProfile s))
      \<and> parents (prof h' (length (profs h))) = [cs_baseLayerProfile s]
      \<and> (\<forall>k\<in>set duplicatedSettings.
            explicit (prof h' (length (profs h))) k
              = (if NEEDS_DUPLICATION h k src = Inr True then Get env h k src else None))"
proof -
  let ?d = "length (profs h)"
  let ?b = "cs_baseLayerProfile s"
  define nm where "nm = duplicateName env (name (prof h src))
                      (map (\<lambda>a. name (prof h a)) (cs_allProfiles s))
                      ((length (cs_allProfiles s) + 1) mod 2 ^ 32) 0
                      (name (prof h src) @ '' ('' @ CopySuffix env @ '')'')"
  define h1 where "h1 = h\<lparr>profs := profs h @
          [make_Profile\<lparr>origin := User, name := nm, guid := Some g,
                        hidden := hidden (prof h ?b), parents := [?b]\<rparr>]\<rparr>"
  have c: "createNewProfile env g nm (h, s) = (?d, h1)"
    unfolding h1_def by (rule createNewProfile_eq[OF assms(3)])
  have r1: "ranked h1 (r(?d := ?d))"
    unfolding h1_def by (rule ranked_extend[OF assms(1,3)]) simp
  have s1: "src < length (profs h1)" using assms(2) by (simp add: h1_def)
  have old: "\<And>a. a < ?d \<Longrightarrow> prof h1 a = prof h a" by (simp add: h1_def prof_def nth_append)
  have new: "prof h1 ?d = make_Profile\<lparr>origin := User, name := nm, guid := Some g,
                        hidden := hidden (prof h ?b), parents := [?b]\<rparr>"
    by (simp add: h1_def prof_def)
  have l1: "length (profs h1) = Suc ?d" by (simp add: h1_def)
  obtain h2 where h2: "forEach (DUPLICATE_SETTING_MACRO env src ?d) duplicatedSettings h1 = Inr h2"
    "differOnlyInSettingsOf ?d h1 h2"
    using forEach_DUPLICATE_SETTING_MACRO[OF r1 s1] by blast
  have r2: "ranked h2 (r(?d := ?d))" using r1 h2(2) by (rule ranked_differOnly)
  have s2: "src < length (profs h2)" using s1 h2(2) by (simp add: differOnlyInSettingsOf_def)
  obtain h3 where h3: "duplicateUnfocusedAppearance src ?d h2 = Inr h3"
    "differOnlyInSettingsOf ?d h2 h3"
    using duplicateUnfocusedAppearance_step[OF r2 s2] by blast
  have r3: "ranked h3 (r(?d := ?d))" using r2 h3(2) by (rule ranked_differOnly)
  have s3: "src < length (profs h3)" using s2 h3(2) by (simp add: differOnlyInSettingsOf_def)
  obtain h4 where h4: "duplicateConnectionType env src ?d h3 = Inr h4"
    "differOnlyInSettingsOf ?d h3 h4"
    using duplicateConnectionType_step[OF r3 s3] by blast
  have f: "differOnlyInSettingsOf ?d h1 h4"
    using h2(2) h3(2) h4(2) differOnly_trans by blast
  have run: "CascadiaSettings_DuplicateProfile env g (Some src) (h, s)
          = Inr (?d, h4, s\<lparr>cs_allProfiles := cs_allProfiles s @ [?d],
                           cs_activeProfiles := cs_activeProfiles s @ [?d]\<rparr>)"
    unfolding CascadiaSettings_DuplicateProfile_def Let_def prod.case option.case nm_def[symmetric] c
    by (simp add: h2(1) h3(1) h4(1) andThen_def)
  have 1: "length (profs h4) = Suc ?d" using f l1 by (simp add: differOnlyInSettingsOf_def)
  have 2: "\<forall>a<?d. prof h4 a = prof h a" using f old l1 by (simp add: differOnlyInSettingsOf_def)
  have 3: "origin (prof h4 ?d) = User" "guid (prof h4 ?d) = Some g"
    "hidden (prof h4 ?d) = hidden (prof h ?b)" "parents (prof h4 ?d) = [?b]"
    using f new by (simp_all add: differOnlyInSettingsOf_def)
  have 4: "explicit (prof h4 ?d) k
             = (if NEEDS_DUPLICATION h k src = Inr True then Get env h k src else None)"
    if k: "k \<in> set duplicatedSettings" for k
  proof -
    have "k \<noteq> PK ConnectionType" using k by (auto simp: duplicatedSettings_def)
    from duplicateConnectionType_explicit[OF h4(1) this]
    have "explicit (prof h4 ?d) k = explicit (prof h3 ?d) k" .
    also have "\<dots> = explicit (prof h2 ?d) k"
      using duplicateUnfocusedAppearance_explicit[OF h3(1)] by simp
    also have "\<dots> = (if k \<in> set duplicatedSettings \<and> NEEDS_DUPLICATION h k src = Inr True
                      then Get env h k src else explicit (prof h1 ?d) k)"
      by (rule forEach_DUPLICATE_SETTING_MACRO_explicit[OF assms(1,2) l1 old h2(1)])
    finally show ?thesis using k by (simp add: new make_Profile_def)
  qed
  from run 1 2 3 4 show ?thesis by blast
qed

lemma duplicate_facts:
  "length (profs duplicateHeap) = 3" "length (profs hiddenDefaultsHeap) = 3"
  "cs_baseLayerProfile duplicateSettings = 0"
  "cs_allProfiles duplicateSettings = [2]" "cs_activeProfiles duplicateSettings = []"
  "hidden (prof duplicateHeap 0) = False" "hidden (prof duplicateHeap 2) = True"
  "hidden (prof hiddenDefaultsHeap 0) = True" "hidden (prof hiddenDefaultsHeap 2) = True"
  by (simp_all add: duplicateHeap_def hiddenDefaultsHeap_def duplicateSettings_def prof_def
      upd_prof_def sampleProfile_def make_Profile_def)

lemma ranked_duplicateHeap: "ranked duplicateHeap (\<lambda>a. if a = 2 then 1 else 0)"
  by (auto simp: ranked_def duplicateHeap_def prof_def sampleProfile_def make_Profile_def
      nth_Cons split: nat.splits)

lemma ranked_hiddenDefaultsHeap: "ranked hiddenDefaultsHeap (\<lambda>a. if a = 2 then 1 else 0)"
  by (auto simp: ranked_def hiddenDefaultsHeap_def upd_prof_def duplicateHeap_def prof_def
      sampleProfile_def make_Profile_def nth_Cons split: nat.splits)

lemma duplicate_settings_facts:
  "NEEDS_DUPLICATION duplicateHeap (PK Icon) 2 = Inr True"
  "NEEDS_DUPLICATION duplicateHeap (PK Commandline) 2 = Inr True"
  "NEEDS_DUPLICATION duplicateHeap (PK Padding) 2 = Inr False"
  "Get sampleEnv duplicateHeap (PK Icon) 2 = Some ''user.ico''"
  "Get sampleEnv duplicateHeap (PK Commandline) 2 = Some ''inbox.exe''"
  "Get sampleEnv duplicateHeap (PK Padding) 2 = Some ''8''"
  by (simp_all add: NEEDS_DUPLICATION_def Has_def OverrideSource_def Get_def Resolved_def
      resolve_def isProfilesDefaultsOrigin_def duplicateHeap_def prof_def sampleProfile_def
      make_Profile_def numeral_2_eq_2 numeral_3_eq_3)

text \<open>C10. \<^verbatim>\<open>DuplicateProfile\<close> rejects a null source with \<^verbatim>\<open>E_INVALIDARG\<close>. For a source profile
  of a container whose parent lists are acyclic it returns: the duplicate is a new profile
  (the source and every other profile are unchanged), of user origin, with the fresh GUID
  and the base-layer profile as its only parent, and it is appended to both \<open>AllProfiles\<close>
  and \<open>ActiveProfiles\<close>. Each of the listed settings is set on the duplicate to the
  source's value exactly if the source sets it or inherits it from a profile other than
  \<^verbatim>\<open>profiles.defaults\<close>. The source's \<open>Hidden\<close> flag is never copied: the duplicate's flag is
  the one that \<^verbatim>\<open>ReproduceProfile\<close> copies from the base-layer profile, so the duplicate of
  a hidden profile is not hidden unless the base-layer profile is.\<close>

theorem C10_DuplicateProfile:
  assumes "ranked h r" "src < length (profs h)" "cs_baseLayerProfile s < length (profs h)"
  shows "CascadiaSettings_DuplicateProfile env g None (h, s) = Inl InvalidArg
    \<and> (\<exists>h'. CascadiaSettings_DuplicateProfile env g (Some src) (h, s)
          = Inr (length (profs h), h',
                 s\<lparr>cs_allProfiles := cs_allProfiles s @ [length (profs h)],
                   cs_activeProfiles := cs_activeProfiles s @ [length (profs h)]\<rparr>)
      \<and> length (profs h') = Suc (length (profs h))
      \<and> (\<forall>a<length (profs h). prof h' a = prof h a)
      \<and> origin (prof h' (length (profs h))) = User
      \<and> guid (prof h' (length (profs h))) = Some g
      \<and> parents (prof h' (length (profs h))) = [cs_baseLayerProfile s]
      \<and> hidden (prof h' (length (profs h))) = hidden (prof h (cs_baseLayerProfile s))
      \<and> (\<forall>k\<in>set duplicatedSettings.
            explicit (prof h' (length (profs h))) k
              = (if NEEDS_DUPLICATION h k src = Inr True then Get env h k src else None)))"
proof -
  have "CascadiaSettings_DuplicateProfile env g None (h, s) = Inl InvalidArg"
    by (simp add: CascadiaSettings_DuplicateProfile_def)
  with DuplicateProfile_result[OF assms, of env g] show ?thesis by blast
qed

theorem C10_DuplicateProfile_witness:
  "\<exists>h'. CascadiaSettings_DuplicateProfile sampleEnv 9 (Some 2) (duplicateHeap, duplicateSettings)
          = Inr (3, h', duplicateSettings\<lparr>cs_allProfiles := [2, 3], cs_activeProfiles := [3]\<rparr>)
      \<and> hidden (prof duplicateHeap 2) \<and> \<not> hidden (prof h' 3)
      \<and> prof h' 2 = prof duplicateHeap 2
      \<and> explicit (prof h' 3) (PK Icon) = Some ''user.ico''
      \<and> explicit (prof h' 3) (PK Commandline) = Some ''inbox.exe''
      \<and> explicit (prof h' 3) (PK Padding) = None"
proof -
  have "2 < length (profs duplicateHeap)"
    "cs_baseLayerProfile duplicateSettings < length (profs duplicateHeap)"
    by (simp_all add: duplicate_facts)
  from C10_DuplicateProfile[OF ranked_duplicateHeap this, of sampleEnv 9]
  obtain h' where h':
    "CascadiaSettings_DuplicateProfile sampleEnv 9 (Some 2) (duplicateHeap, duplicateSettings)
       = Inr (length (profs duplicateHeap), h',
              duplicateSettings\<lparr>cs_allProfiles := cs_allProfiles duplicateSettings @ [length (profs duplicateHeap)],
                cs_activeProfiles := cs_activeProfiles duplicateSettings @ [length (profs duplicateHeap)]\<rparr>)"
    "\<forall>a<length (profs duplicateHeap). prof h' a = prof duplicateHeap a"
    "hidden (prof h' (length (profs duplicateHeap)))
       = hidden (prof duplicateHeap (cs_baseLayerProfile duplicateSettings))"
    "\<forall>k\<in>set duplicatedSettings.
        explicit (prof h' (length (profs duplicateHeap))) k
          = (if NEEDS_DUPLICATION duplicateHeap k 2 = Inr True
             then Get sampleEnv duplicateHeap k 2 else None)"
    by blast
  have 1: "CascadiaSettings_DuplicateProfile sampleEnv 9 (Some 2) (duplicateHeap, duplicateSettings)
          = Inr (3, h', duplicateSettings\<lparr>cs_allProfiles := [2, 3], cs_activeProfiles := [3]\<rparr>)"
    using h'(1) by (simp add: duplicate_facts)
  have 2: "hidden (prof duplicateHeap 2)" "\<not> hidden (prof h' 3)" "prof h' 2 = prof duplicateHeap 2"
    using h'(2,3) by (simp_all add: duplicate_facts)
  have k: "PK Icon \<in> set duplicatedSettings" "PK Commandline \<in> set duplicatedSettings"
    "PK Padding \<in> set duplicatedSettings"
    by (simp_all add: duplicatedSettings_def)
  have 3: "explicit (prof h' 3) (PK Icon) = Some ''user.ico''"
    "explicit (prof h' 3) (PK Commandline) = Some ''inbox.exe''"
    "explicit (prof h' 3) (PK Padding) = None"
    using h'(4)[rule_format, OF k(1)] h'(4)[rule_format, OF k(2)] h'(4)[rule_format, OF k(3)]
    by (simp_all add: duplicate_facts duplicate_settings_facts)
  from 1 2 3 show ?thesis by blast
qed

theorem C10_hidden_defaults_counterexample:
  "\<exists>h'. CascadiaSettings_DuplicateProfile sampleEnv 9 (Some 2) (hiddenDefaultsHeap, duplicateSettings)
          = Inr (3, h', duplicateSettings\<lparr>cs_allProfiles := [2, 3], cs_activeProfiles := [3]\<rparr>)
      \<and> hidden (prof h' 3)"
proof -
  have "2 < length (profs hiddenDefaultsHeap)"
    "cs_baseLayerProfile duplicateSettings < length (profs hiddenDefaultsHeap)"
    by (simp_all add: duplicate_facts)
  from DuplicateProfile_result[OF ranked_hiddenDefaultsHeap this, of sampleEnv 9]
  obtain h' where h':
    "CascadiaSettings_DuplicateProfile sampleEnv 9 (Some 2) (hiddenDefaultsHeap, duplicateSettings)
       = Inr (length (profs hiddenDefaultsHeap), h',
              duplicateSettings\<lparr>cs_allProfiles := cs_allProfiles duplicateSettings @ [length (profs hiddenDefaultsHeap)],
                cs_activeProfiles := cs_activeProfiles duplicateSettings @ [length (profs hiddenDefaultsHeap)]\<rparr>)"
    "hidden (prof h' (length (profs hiddenDefaultsHeap)))
       = hidden (prof hiddenDefaultsHeap (cs_baseLayerProfile duplicateSettings))"
    by blast
  have 1: "CascadiaSettings_DuplicateProfile sampleEnv 9 (Some 2) (hiddenDefaultsHeap, duplicateSettings)
          = Inr (3, h', duplicateSettings\<lparr>cs_allProfiles := [2, 3], cs_activeProfiles := [3]\<rparr>)"
    using h'(1) by (simp add: duplicate_facts)
  have 2: "hidden (prof h' 3)" using h'(2) by (simp add: duplicate_facts)
  from 1 2 show ?thesis by blast
qed


section \<open>The interned copy of the profile graph\<close>

lemma copyInv_iff:
  "copyInv h0 (h, v) \<longleftrightarrow>
     length (profs h0) \<le> length (profs h)
     \<and> (\<forall>a<length (profs h0). prof h a = prof h0 a)
     \<and> (\<forall>a c. v a = Some c \<longrightarrow> a < length (profs h0) \<and> length (profs h0) \<le> c \<and> c < length (profs h))
     \<and> (\<forall>a b c. v a = Some c \<longrightarrow> v b = Some c \<longrightarrow> a = b)
     \<and> (\<forall>c. length (profs h0) \<le> c \<longrightarrow> c < length (profs h) \<longrightarrow> (\<exists>a. v a = Some c))"
  unfolding copyInv_def prod.case ..

lemma copyInvD:
  assumes "copyInv h0 (h, v)"
  shows "length (profs h0) \<le> length (profs h)"
    and "\<And>a. a < length (profs h0) \<Longrightarrow> prof h a = prof h0 a"
    and "\<And>a c. v a = Some c \<Longrightarrow> a < length (profs h0)"
    and "\<And>a c. v a = Some c \<Longrightarrow> length (profs h0) \<le> c"
    and "\<And>a c. v a = Some c \<Longrightarrow> c < length (profs h)"
    and "\<And>a b c. v a = Some c \<Longrightarrow> v b = Some c \<Longrightarrow> a = b"
    and "\<And>c. length (profs h0) \<le> c \<Longrightarrow> c < length (profs h) \<Longrightarrow> \<exists>a. v a = Some c"
  using assms unfolding copyInv_iff by blast+

lemma copyInv_start: "copyInv h (h, Map.empty)"
  unfolding copyInv_iff by simp

lemma copyInv_bound:
  assumes "copyInv h0 (h, v)"
  shows "length (profs h) \<le> 2 * length (profs h0)"
proof -
  let ?N = "length (profs h0)"
  note d = copyInvD[OF assms]
  have "{?N..<length (profs h)} \<subseteq> (\<lambda>a. the (v a)) ` {..<?N}"
  proof
    fix c assume "c \<in> {?N..<length (profs h)}"
    then have "?N \<le> c" "c < length (profs h)" by simp_all
    from d(7)[OF this] obtain a where a: "v a = Some c" by blast
    from d(3)[OF a] have "a \<in> {..<?N}" by simp
    moreover have "c = the (v a)" using a by simp
    ultimately show "c \<in> (\<lambda>a. the (v a)) ` {..<?N}" by (rule rev_image_eqI)
  qed
  from surj_card_le[OF _ this] have "card {?N..<length (profs h)} \<le> card {..<?N}" by simp
  then show ?thesis by simp
qed

lemma copyInv_InsertParent:
  assumes "copyInv h0 (h, v)" "length (profs h0) \<le> clone"
  shows "copyInv h0 (InsertParent clone c h, v)"
proof -
  have l: "length (profs (InsertParent clone c h)) = length (profs h)"
    by (simp add: InsertParent_def)
  have p: "\<And>a. a < length (profs h0) \<Longrightarrow> prof (InsertParent clone c h) a = prof h a"
    using assms(2) by (simp add: InsertParent_def prof_upd_prof)
  show ?thesis
    using assms(1) unfolding copyInv_iff l by (simp add: p)
qed

lemma copyInv_alloc:
  assumes "copyInv h0 (h, v)" "node < length (profs h0)" "v node = None"
  shows "copyInv h0 (h\<lparr>profs := profs h @ [p]\<rparr>, v(node \<mapsto> length (profs h)))"
proof -
  let ?N = "length (profs h0)" and ?L = "length (profs h)"
  let ?h1 = "h\<lparr>profs := profs h @ [p]\<rparr>" and ?v1 = "v(node \<mapsto> length (profs h))"
  note d = copyInvD[OF assms(1)]
  note i1 = d(1) and i2 = d(2) and i4 = d(6) and i5 = d(7)
  have i3: "\<And>a c. v a = Some c \<Longrightarrow> a < ?N \<and> ?N \<le> c \<and> c < ?L"
    using d(3,4,5) by blast
  have 1: "?N \<le> length (profs ?h1)" using i1 by simp
  have 2: "\<forall>a<?N. prof ?h1 a = prof h0 a" using i1 i2 by (simp add: prof_def nth_append)
  have 3: "\<forall>a c. ?v1 a = Some c \<longrightarrow> a < ?N \<and> ?N \<le> c \<and> c < length (profs ?h1)"
    using i1 i3 assms(2) by (auto simp: less_Suc_eq)
  have 4: "\<forall>a b c. ?v1 a = Some c \<longrightarrow> ?v1 b = Some c \<longrightarrow> a = b"
  proof (intro allI impI)
    fix a b c assume a: "?v1 a = Some c" and b: "?v1 b = Some c"
    show "a = b"
    proof (cases "a = node")
      case True
      with a have c: "c = ?L" by simp
      show ?thesis
      proof (cases "b = node")
        case True with \<open>a = node\<close> show ?thesis by simp
      next
        case False
        with b c have "v b = Some ?L" by simp
        with i3 show ?thesis by blast
      qed
    next
      case False
      with a have va: "v a = Some c" by simp
      show ?thesis
      proof (cases "b = node")
        case True
        with b have "c = ?L" by simp
        with va i3 show ?thesis by blast
      next
        case False
        with b have "v b = Some c" by simp
        with va i4 show ?thesis by blast
      qed
    qed
  qed
  have 5: "\<forall>c. ?N \<le> c \<longrightarrow> c < length (profs ?h1) \<longrightarrow> (\<exists>a. ?v1 a = Some c)"
  proof (intro allI impI)
    fix c assume c: "?N \<le> c" "c < length (profs ?h1)"
    show "\<exists>a. ?v1 a = Some c"
    proof (cases "c = ?L")
      case True
      then show ?thesis by auto
    next
      case False
      with c have "c < ?L" by simp
      from i5[OF c(1) this] obtain a where a: "v a = Some c" by blast
      with assms(3) have "a \<noteq> node" by auto
      with a show ?thesis by auto
    qed
  qed
  from 1 2 3 4 5 show ?thesis unfolding copyInv_iff by blast
qed

lemma complete_iff:
  "complete h0 (h, v) a c \<longleftrightarrow>
     prof h c = (prof h0 a)\<lparr>parents := map (\<lambda>p. the (v p)) (parents (prof h0 a))\<rparr>
     \<and> (\<forall>p\<in>set (parents (prof h0 a)). v p \<noteq> None)"
  unfolding complete_def prod.case ..

lemma complete_mono:
  assumes "complete h0 (h1, v1) a c" "prof h2 c = prof h1 c"
    and "\<And>x y. v1 x = Some y \<Longrightarrow> v2 x = Some y"
  shows "complete h0 (h2, v2) a c"
proof -
  from assms(1) have
    p: "prof h1 c = (prof h0 a)\<lparr>parents := map (\<lambda>p. the (v1 p)) (parents (prof h0 a))\<rparr>" and
    d: "\<forall>p\<in>set (parents (prof h0 a)). v1 p \<noteq> None"
    unfolding complete_iff by simp_all
  have m: "map (\<lambda>p. the (v2 p)) (parents (prof h0 a)) = map (\<lambda>p. the (v1 p)) (parents (prof h0 a))"
  proof (rule map_cong[OF refl])
    fix p assume "p \<in> set (parents (prof h0 a))"
    with d obtain y where "v1 p = Some y" by auto
    with assms(3) show "the (v2 p) = the (v1 p)" by simp
  qed
  have d2: "\<forall>p\<in>set (parents (prof h0 a)). v2 p \<noteq> None"
  proof
    fix p assume "p \<in> set (parents (prof h0 a))"
    with d obtain y where "v1 p = Some y" by auto
    with assms(3) show "v2 p \<noteq> None" by simp
  qed
  show ?thesis unfolding complete_iff using p m d2 assms(2) by simp
qed

lemma copyPost_iff:
  "copyPost h0 (h, v) (h', v') \<longleftrightarrow>
     copyInv h0 (h', v')
     \<and> (\<forall>a c. v a = Some c \<longrightarrow> v' a = Some c)
     \<and> length (profs h) \<le> length (profs h')
     \<and> (\<forall>a<length (profs h). prof h' a = prof h a)
     \<and> globs h' = globs h
     \<and> (\<forall>a c. v a = None \<longrightarrow> v' a = Some c \<longrightarrow> complete h0 (h', v') a c)"
  unfolding copyPost_def prod.case ..

lemma copyPostD:
  assumes "copyPost h0 (h, v) (h', v')"
  shows "copyInv h0 (h', v')"
    and "\<And>a c. v a = Some c \<Longrightarrow> v' a = Some c"
    and "length (profs h) \<le> length (profs h')"
    and "\<And>a. a < length (profs h) \<Longrightarrow> prof h' a = prof h a"
    and "globs h' = globs h"
    and "\<And>a c. v a = None \<Longrightarrow> v' a = Some c \<Longrightarrow> complete h0 (h', v') a c"
  using assms unfolding copyPost_iff by blast+

lemma copyPostI:
  assumes "copyInv h0 (h', v')"
    and "\<And>a c. v a = Some c \<Longrightarrow> v' a = Some c"
    and "length (profs h) \<le> length (profs h')"
    and "\<And>a. a < length (profs h) \<Longrightarrow> prof h' a = prof h a"
    and "globs h' = globs h"
    and "\<And>a c. v a = None \<Longrightarrow> v' a = Some c \<Longrightarrow> complete h0 (h', v') a c"
  shows "copyPost h0 (h, v) (h', v')"
  unfolding copyPost_iff using assms by blast

lemma copyPost_refl: "copyInv h0 (h, v) \<Longrightarrow> copyPost h0 (h, v) (h, v)"
  by (rule copyPostI) simp_all

lemma copyPost_trans:
  assumes "copyPost h0 (h, v) (h1, v1)" "copyPost h0 (h1, v1) (h2, v2)"
  shows "copyPost h0 (h, v) (h2, v2)"
proof (rule copyPostI)
  note a = copyPostD[OF assms(1)] and b = copyPostD[OF assms(2)]
  show "copyInv h0 (h2, v2)" by (rule b(1))
  show "\<And>a c. v a = Some c \<Longrightarrow> v2 a = Some c" using a(2) b(2) by blast
  show "length (profs h) \<le> length (profs h2)" using a(3) b(3) by simp
  show "\<And>x. x < length (profs h) \<Longrightarrow> prof h2 x = prof h x" using a(3) a(4) b(4) by simp
  show "globs h2 = globs h" using a(5) b(5) by simp
  show "complete h0 (h2, v2) x c" if n: "v x = None" and s: "v2 x = Some c" for x c
  proof (cases "v1 x")
    case None
    from b(6)[OF None s] show ?thesis .
  next
    case (Some c1)
    from b(2)[OF Some] s have c: "c = c1" by simp
    from copyInvD(5)[OF a(1) Some] have "c1 < length (profs h1)" .
    from complete_mono[OF a(6)[OF n Some] b(4)[OF this] b(2)] c show ?thesis by simp
  qed
qed

text \<open>Attaching the clones of the parents, given what the interned copy of one profile
  does at this depth.\<close>

lemma copyParents_post:
  assumes IH: "\<And>node h v c h' v'. copyInv h0 (h, v) \<Longrightarrow> node < length (profs h0)
                 \<Longrightarrow> CopyInterned n node (h, v) = Some (c, h', v')
                 \<Longrightarrow> copyPost h0 (h, v) (h', v') \<and> v' node = Some c"
  shows "copyInv h0 (h, v) \<Longrightarrow> set ps \<subseteq> {..<length (profs h0)}
     \<Longrightarrow> length (profs h0) \<le> clone \<Longrightarrow> clone < length (profs h)
     \<Longrightarrow> copyParents n clone ps (h, v) = Some (h', v')
     \<Longrightarrow> copyInv h0 (h', v')
         \<and> (\<forall>a c. v a = Some c \<longrightarrow> v' a = Some c)
         \<and> length (profs h) \<le> length (profs h')
         \<and> (\<forall>a<length (profs h). a \<noteq> clone \<longrightarrow> prof h' a = prof h a)
         \<and> prof h' clone = (prof h clone)\<lparr>parents := parents (prof h clone) @ map (\<lambda>p. the (v' p)) ps\<rparr>
         \<and> (\<forall>p\<in>set ps. v' p \<noteq> None)
         \<and> globs h' = globs h
         \<and> (\<forall>a c. v a = None \<longrightarrow> v' a = Some c \<longrightarrow> complete h0 (h', v') a c)"
proof (induction ps arbitrary: h v)
  case Nil
  then show ?case by simp
next
  case (Cons p ps)
  let ?N = "length (profs h0)"
  from Cons.prems(5) obtain c h1 v1 where
    ci: "CopyInterned n p (h, v) = Some (c, h1, v1)" and
    rest: "copyParents n clone ps (InsertParent clone c h1, v1) = Some (h', v')"
    by (auto split: option.splits)
  have pN: "p < ?N" using Cons.prems(2) by simp
  from IH[OF Cons.prems(1) pN ci] have post: "copyPost h0 (h, v) (h1, v1)" and vp: "v1 p = Some c"
    by simp_all
  note a = copyPostD[OF post]
  let ?h1 = "InsertParent clone c h1"
  have l1: "length (profs ?h1) = length (profs h1)" by (simp add: InsertParent_def)
  have g1: "globs ?h1 = globs h1" by (simp add: InsertParent_def)
  have inv1: "copyInv h0 (?h1, v1)" using a(1) Cons.prems(3) by (rule copyInv_InsertParent)
  have cl1: "clone < length (profs ?h1)" using Cons.prems(4) a(3) l1 by simp
  have ps: "set ps \<subseteq> {..<?N}" using Cons.prems(2) by simp
  note ih = Cons.IH[OF inv1 ps Cons.prems(3) cl1 rest]
  have b1: "copyInv h0 (h', v')" using ih by blast
  have b2: "\<And>a c. v1 a = Some c \<Longrightarrow> v' a = Some c" using ih by blast
  have b3: "length (profs ?h1) \<le> length (profs h')" using ih by blast
  have b4: "\<And>a. a < length (profs ?h1) \<Longrightarrow> a \<noteq> clone \<Longrightarrow> prof h' a = prof ?h1 a" using ih by blast
  have b5: "prof h' clone = (prof ?h1 clone)\<lparr>parents := parents (prof ?h1 clone) @ map (\<lambda>p. the (v' p)) ps\<rparr>"
    using ih by blast
  have b6: "\<forall>p\<in>set ps. v' p \<noteq> None" using ih by blast
  have b7: "globs h' = globs ?h1" using ih by blast
  have b8: "\<And>a c. v1 a = None \<Longrightarrow> v' a = Some c \<Longrightarrow> complete h0 (h', v') a c" using ih by blast
  have o1: "prof ?h1 a = prof h1 a" if "a \<noteq> clone" for a
    using that by (simp add: InsertParent_def prof_upd_prof)
  have c1: "prof ?h1 clone = (prof h clone)\<lparr>parents := parents (prof h clone) @ [c]\<rparr>"
    using Cons.prems(4) a(3) a(4)[OF Cons.prems(4)] by (simp add: InsertParent_def prof_upd_prof)
  have 2: "\<forall>a c. v a = Some c \<longrightarrow> v' a = Some c" using a(2) b2 by blast
  have 3: "length (profs h) \<le> length (profs h')" using a(3) b3 l1 by simp
  have 4: "\<forall>a<length (profs h). a \<noteq> clone \<longrightarrow> prof h' a = prof h a"
  proof (intro allI impI)
    fix x assume x: "x < length (profs h)" "x \<noteq> clone"
    then have "x < length (profs ?h1)" using a(3) l1 by simp
    from b4[OF this x(2)] o1[OF x(2)] a(4)[OF x(1)] show "prof h' x = prof h x" by simp
  qed
  have vp': "v' p = Some c" using b2[OF vp] .
  have 5: "prof h' clone = (prof h clone)\<lparr>parents := parents (prof h clone) @ map (\<lambda>p. the (v' p)) (p # ps)\<rparr>"
    unfolding b5 c1 using vp' by simp
  have 6: "\<forall>q\<in>set (p # ps). v' q \<noteq> None" using b6 vp' by simp
  have 7: "globs h' = globs h" using b7 g1 a(5) by simp
  have 8: "complete h0 (h', v') x c'" if n: "v x = None" and s: "v' x = Some c'" for x c'
  proof (cases "v1 x")
    case None
    from b8[OF None s] show ?thesis .
  next
    case (Some c1)
    from b2[OF Some] s have c: "c' = c1" by simp
    from copyInvD(5)[OF a(1) Some] have lt: "c1 < length (profs h1)" .
    have ne: "c1 \<noteq> clone"
    proof
      assume e: "c1 = clone"
      from copyInvD(7)[OF Cons.prems(1) Cons.prems(3) Cons.prems(4)]
      obtain b where b: "v b = Some clone" by blast
      from a(2)[OF b] have "v1 b = Some clone" .
      from copyInvD(6)[OF a(1) Some[unfolded e] this] have "x = b" .
      with n b show False by simp
    qed
    have "prof h' c1 = prof h1 c1" using b4[of c1] lt l1 ne o1 by simp
    from complete_mono[OF a(6)[OF n Some] this b2] c show ?thesis by simp
  qed
  from b1 2 3 4 5 6 7 8 show ?case by blast
qed

lemma CopyInterned_post:
  assumes closed: "\<forall>a<length (profs h0). \<forall>p\<in>set (parents (prof h0 a)). p < length (profs h0)"
  shows "copyInv h0 (h, v) \<Longrightarrow> node < length (profs h0)
         \<Longrightarrow> CopyInterned n node (h, v) = Some (c, h', v')
         \<Longrightarrow> copyPost h0 (h, v) (h', v') \<and> v' node = Some c"
proof (induction n arbitrary: node h v c h' v')
  case 0
  then show ?case by simp
next
  case (Suc n)
  let ?N = "length (profs h0)"
  note inv = Suc.prems(1)
  show ?case
  proof (cases "v node")
    case (Some clone)
    with Suc.prems(3) have "c = clone" "h' = h" "v' = v" by simp_all
    with Some inv show ?thesis by (simp add: copyPost_refl)
  next
    case None
    let ?L = "length (profs h)"
    let ?h1 = "h\<lparr>profs := profs h @ [CopySettings (prof h node)]\<rparr>"
    let ?v1 = "v(node \<mapsto> ?L)"
    from Suc.prems(3) None have c: "c = ?L" and
      run: "copyParents n ?L (parents (prof h node)) (?h1, ?v1) = Some (h', v')"
      by (auto simp: alloc_Profile_def)
    note i1 = copyInvD(1)[OF inv] and i2 = copyInvD(2)[OF inv]
    have pn: "prof h node = prof h0 node" using i2 Suc.prems(2) by simp
    have inv1: "copyInv h0 (?h1, ?v1)" using inv Suc.prems(2) None by (rule copyInv_alloc)
    have ps: "set (parents (prof h node)) \<subseteq> {..<?N}" using closed Suc.prems(2) pn by auto
    have cl: "?L < length (profs ?h1)" by simp
    note lp = copyParents_post[where n=n, OF Suc.IH inv1 ps i1 cl run]
    have b1: "copyInv h0 (h', v')" using lp by blast
    have b2: "\<And>a c. ?v1 a = Some c \<Longrightarrow> v' a = Some c" using lp by blast
    have b3: "length (profs ?h1) \<le> length (profs h')" using lp by blast
    have b4: "\<And>a. a < length (profs ?h1) \<Longrightarrow> a \<noteq> ?L \<Longrightarrow> prof h' a = prof ?h1 a" using lp by blast
    have b5: "prof h' ?L = (prof ?h1 ?L)\<lparr>parents := parents (prof ?h1 ?L)
                            @ map (\<lambda>p. the (v' p)) (parents (prof h node))\<rparr>" using lp by blast
    have b6: "\<forall>p\<in>set (parents (prof h node)). v' p \<noteq> None" using lp by blast
    have b7: "globs h' = globs ?h1" using lp by blast
    have b8: "\<And>a c. ?v1 a = None \<Longrightarrow> v' a = Some c \<Longrightarrow> complete h0 (h', v') a c" using lp by blast
    have vn: "v' node = Some ?L" using b2[of node ?L] by simp
    have new: "prof ?h1 ?L = CopySettings (prof h0 node)" by (simp add: prof_def pn[unfolded prof_def])
    have "copyPost h0 (h, v) (h', v')"
    proof (rule copyPostI)
      show "copyInv h0 (h', v')" by (rule b1)
      show "v' a = Some c" if a: "v a = Some c" for a c
      proof -
        from a None have "a \<noteq> node" by auto
        with a have "?v1 a = Some c" by simp
        from b2[OF this] show ?thesis .
      qed
      show "length (profs h) \<le> length (profs h')" using b3 by simp
      show "prof h' a = prof h a" if a: "a < length (profs h)" for a
      proof -
        have "prof h' a = prof ?h1 a" using a b4[of a] by simp
        also have "\<dots> = prof h a" using a by (simp add: prof_def nth_append)
        finally show ?thesis .
      qed
      show "globs h' = globs h" using b7 by simp
      show "complete h0 (h', v') a c'" if n: "v a = None" and s: "v' a = Some c'" for a c'
      proof (cases "a = node")
        case True
        with s vn have c': "c' = ?L" by simp
        show ?thesis
          unfolding complete_iff True c' using b5 b6 new pn by (simp add: CopySettings_def)
      next
        case False
        with n have "?v1 a = None" by simp
        from b8[OF this s] show ?thesis .
      qed
    qed
    with vn c show ?thesis by simp
  qed
qed

lemma CopyInheritanceGraph_post:
  assumes closed: "\<forall>a<length (profs h0). \<forall>p\<in>set (parents (prof h0 a)). p < length (profs h0)"
  shows "copyInv h0 (h, v) \<Longrightarrow> set ps \<subseteq> {..<length (profs h0)}
     \<Longrightarrow> CopyInheritanceGraph n ps (tp, h, v) = Some (tp', h', v')
     \<Longrightarrow> copyPost h0 (h, v) (h', v') \<and> tp' = tp @ map (\<lambda>p. the (v' p)) ps
         \<and> (\<forall>p\<in>set ps. v' p \<noteq> None)"
proof (induction ps arbitrary: tp h v)
  case Nil
  then show ?case by (simp add: copyPost_refl)
next
  case (Cons p ps)
  from Cons.prems(3) obtain c h1 v1 where
    ci: "CopyInterned n p (h, v) = Some (c, h1, v1)" and
    rest: "CopyInheritanceGraph n ps (tp @ [c], h1, v1) = Some (tp', h', v')"
    by (auto split: option.splits)
  have pN: "p < length (profs h0)" using Cons.prems(2) by simp
  from CopyInterned_post[OF closed Cons.prems(1) pN ci]
  have post: "copyPost h0 (h, v) (h1, v1)" and vp: "v1 p = Some c" by simp_all
  have ps: "set ps \<subseteq> {..<length (profs h0)}" using Cons.prems(2) by simp
  from Cons.IH[OF copyPostD(1)[OF post] ps rest]
  have post2: "copyPost h0 (h1, v1) (h', v')" and tp: "tp' = (tp @ [c]) @ map (\<lambda>p. the (v' p)) ps"
    and d: "\<forall>p\<in>set ps. v' p \<noteq> None"
    by simp_all
  from copyPostD(2)[OF post2 vp] have vp': "v' p = Some c" .
  from copyPost_trans[OF post post2] tp d vp' show ?case by simp
qed

section \<open>The interned copy returns\<close>

lemma copyParents_returns:
  assumes closed: "\<forall>a<length (profs h0). \<forall>p\<in>set (parents (prof h0 a)). p < length (profs h0)"
    and IH: "\<And>node h v. copyInv h0 (h, v) \<Longrightarrow> node < length (profs h0)
                 \<Longrightarrow> 2 * length (profs h0) < n + length (profs h)
                 \<Longrightarrow> CopyInterned n node (h, v) \<noteq> None"
  shows "copyInv h0 (h, v) \<Longrightarrow> set ps \<subseteq> {..<length (profs h0)}
     \<Longrightarrow> length (profs h0) \<le> clone \<Longrightarrow> 2 * length (profs h0) < n + length (profs h)
     \<Longrightarrow> copyParents n clone ps (h, v) \<noteq> None"
proof (induction ps arbitrary: h v)
  case Nil
  then show ?case by simp
next
  case (Cons p ps)
  have pN: "p < length (profs h0)" using Cons.prems(2) by simp
  from IH[OF Cons.prems(1) pN Cons.prems(4)] obtain c h1 v1 where
    ci: "CopyInterned n p (h, v) = Some (c, h1, v1)" by auto
  from CopyInterned_post[OF closed Cons.prems(1) pN ci]
  have post: "copyPost h0 (h, v) (h1, v1)" by simp
  have inv1: "copyInv h0 (InsertParent clone c h1, v1)"
    using copyPostD(1)[OF post] Cons.prems(3) by (rule copyInv_InsertParent)
  have l: "2 * length (profs h0) < n + length (profs (InsertParent clone c h1))"
    using Cons.prems(4) copyPostD(3)[OF post] by (simp add: InsertParent_def)
  have ps: "set ps \<subseteq> {..<length (profs h0)}" using Cons.prems(2) by simp
  from Cons.IH[OF inv1 ps Cons.prems(3) l] ci show ?case by simp
qed

lemma CopyInterned_returns:
  assumes closed: "\<forall>a<length (profs h0). \<forall>p\<in>set (parents (prof h0 a)). p < length (profs h0)"
  shows "copyInv h0 (h, v) \<Longrightarrow> node < length (profs h0)
     \<Longrightarrow> 2 * length (profs h0) < n + length (profs h)
     \<Longrightarrow> CopyInterned n node (h, v) \<noteq> None"
proof (induction n arbitrary: node h v)
  case 0
  from copyInv_bound[OF 0(1)] 0(3) show ?case by simp
next
  case (Suc n)
  show ?case
  proof (cases "v node")
    case (Some c)
    then show ?thesis by simp
  next
    case None
    let ?L = "length (profs h)"
    let ?h1 = "h\<lparr>profs := profs h @ [CopySettings (prof h node)]\<rparr>"
    let ?v1 = "v(node \<mapsto> ?L)"
    have pn: "prof h node = prof h0 node" using copyInvD(2)[OF Suc.prems(1)] Suc.prems(2) by simp
    have inv1: "copyInv h0 (?h1, ?v1)" using Suc.prems(1,2) None by (rule copyInv_alloc)
    have ps: "set (parents (prof h node)) \<subseteq> {..<length (profs h0)}"
      using closed Suc.prems(2) pn by auto
    have l: "2 * length (profs h0) < n + length (profs ?h1)" using Suc.prems(3) by simp
    from copyParents_returns[where n=n, OF closed Suc.IH inv1 ps copyInvD(1)[OF Suc.prems(1)] l]
    show ?thesis using None by (simp add: alloc_Profile_def)
  qed
qed

lemma CopyInheritanceGraph_returns:
  assumes closed: "\<forall>a<length (profs h0). \<forall>p\<in>set (parents (prof h0 a)). p < length (profs h0)"
  shows "copyInv h0 (h, v) \<Longrightarrow> set ps \<subseteq> {..<length (profs h0)}
     \<Longrightarrow> 2 * length (profs h0) < n + length (profs h)
     \<Longrightarrow> CopyInheritanceGraph n ps (tp, h, v) \<noteq> None"
proof (induction ps arbitrary: tp h v)
  case Nil
  then show ?case by simp
next
  case (Cons p ps)
  have pN: "p < length (profs h0)" using Cons.prems(2) by simp
  from CopyInterned_returns[OF closed Cons.prems(1) pN Cons.prems(3)] obtain c h1 v1 where
    ci: "CopyInterned n p (h, v) = Some (c, h1, v1)" by auto
  from CopyInterned_post[OF closed Cons.prems(1) pN ci]
  have post: "copyPost h0 (h, v) (h1, v1)" by simp
  have l: "2 * length (profs h0) < n + length (profs h1)"
    using Cons.prems(3) copyPostD(3)[OF post] by simp
  have ps: "set ps \<subseteq> {..<length (profs h0)}" using Cons.prems(2) by simp
  from Cons.IH[OF copyPostD(1)[OF post] ps l] ci show ?case by simp
qed

section \<open>The copy of the globals\<close>

lemma copyGlobalsParents_returns:
  assumes IH: "\<And>p h. p \<in> set ps \<Longrightarrow> length (globs h0) \<le> length (globs h)
                 \<Longrightarrow> (\<forall>x<length (globs h0). glob h x = glob h0 x)
                 \<Longrightarrow> \<exists>h'. Globals_Copy n p h = Some (length (globs h), h')
                        \<and> profs h' = profs h \<and> length (globs h) < length (globs h')
                        \<and> (\<forall>x<length (globs h). glob h' x = glob h x)"
  shows "length (globs h0) \<le> length (globs h)
     \<Longrightarrow> (\<forall>x<length (globs h0). glob h x = glob h0 x)
     \<Longrightarrow> length (globs h0) \<le> g
     \<Longrightarrow> \<exists>h'. copyGlobalsParents n g ps h = Some h'
            \<and> profs h' = profs h \<and> length (globs h) \<le> length (globs h')
            \<and> (\<forall>x<length (globs h). x \<noteq> g \<longrightarrow> glob h' x = glob h x)"
  using IH
proof (induction ps arbitrary: h)
  case Nil
  then show ?case by simp
next
  case (Cons p ps)
  from Cons.prems(4)[OF _ Cons.prems(1,2)] obtain h1 where
    h1: "Globals_Copy n p h = Some (length (globs h), h1)" "profs h1 = profs h"
    "length (globs h) < length (globs h1)" "\<forall>x<length (globs h). glob h1 x = glob h x"
    by auto
  let ?h1 = "Globals_InsertParent g (length (globs h)) h1"
  have l1: "length (globs ?h1) = length (globs h1)" "profs ?h1 = profs h1"
    by (simp_all add: Globals_InsertParent_def)
  have o1: "\<And>x. x \<noteq> g \<Longrightarrow> glob ?h1 x = glob h1 x"
    by (simp add: Globals_InsertParent_def glob_upd_glob)
  have 1: "length (globs h0) \<le> length (globs ?h1)" using Cons.prems(1) h1(3) l1 by simp
  have 2: "\<forall>x<length (globs h0). glob ?h1 x = glob h0 x"
    using Cons.prems(1,2,3) h1(4) o1 by simp
  have ih: "\<And>q h. q \<in> set ps \<Longrightarrow> length (globs h0) \<le> length (globs h)
                 \<Longrightarrow> (\<forall>x<length (globs h0). glob h x = glob h0 x)
                 \<Longrightarrow> \<exists>h'. Globals_Copy n q h = Some (length (globs h), h')
                        \<and> profs h' = profs h \<and> length (globs h) < length (globs h')
                        \<and> (\<forall>x<length (globs h). glob h' x = glob h x)"
    using Cons.prems(4) by simp
  from Cons.IH[OF 1 2 Cons.prems(3) ih] obtain h' where
    h': "copyGlobalsParents n g ps ?h1 = Some h'" "profs h' = profs ?h1"
    "length (globs ?h1) \<le> length (globs h')"
    "\<forall>x<length (globs ?h1). x \<noteq> g \<longrightarrow> glob h' x = glob ?h1 x"
    by blast
  have r: "copyGlobalsParents n g (p # ps) h = Some h'" using h1(1) h'(1) by simp
  have 3: "profs h' = profs h" using h'(2) l1 h1(2) by simp
  have 4: "length (globs h) \<le> length (globs h')" using h'(3) l1 h1(3) by simp
  have 5: "\<forall>x<length (globs h). x \<noteq> g \<longrightarrow> glob h' x = glob h x"
    using h'(4) l1 h1(3,4) o1 by simp
  from r 3 4 5 show ?case by blast
qed

lemma Globals_Copy_returns:
  assumes "globalsRanked h0 d"
  shows "length (globs h0) \<le> length (globs h)
     \<Longrightarrow> (\<forall>x<length (globs h0). glob h x = glob h0 x)
     \<Longrightarrow> a < length (globs h0) \<Longrightarrow> d a < n
     \<Longrightarrow> \<exists>h'. Globals_Copy n a h = Some (length (globs h), h')
            \<and> profs h' = profs h \<and> length (globs h) < length (globs h')
            \<and> (\<forall>x<length (globs h). glob h' x = glob h x)"
proof (induction n arbitrary: a h)
  case 0
  then show ?case by simp
next
  case (Suc n)
  let ?L = "length (globs h)"
  let ?h1 = "h\<lparr>globs := globs h @ [(glob h a)\<lparr>gparents := []\<rparr>]\<rparr>"
  have ga: "glob h a = glob h0 a" using Suc.prems(2,3) by simp
  have 1: "length (globs h0) \<le> length (globs ?h1)" using Suc.prems(1) by simp
  have 2: "\<forall>x<length (globs h0). glob ?h1 x = glob h0 x"
    using Suc.prems(1,2) by (simp add: glob_def nth_append)
  have ih: "\<And>p h. p \<in> set (gparents (glob h0 a)) \<Longrightarrow> length (globs h0) \<le> length (globs h)
                 \<Longrightarrow> (\<forall>x<length (globs h0). glob h x = glob h0 x)
                 \<Longrightarrow> \<exists>h'. Globals_Copy n p h = Some (length (globs h), h')
                        \<and> profs h' = profs h \<and> length (globs h) < length (globs h')
                        \<and> (\<forall>x<length (globs h). glob h' x = glob h x)"
  proof -
    fix p h assume p: "p \<in> set (gparents (glob h0 a))"
      and pre: "length (globs h0) \<le> length (globs h)" "\<forall>x<length (globs h0). glob h x = glob h0 x"
    from assms Suc.prems(3) p have "p < length (globs h0)" "d p < d a"
      by (auto simp: globalsRanked_def)
    with Suc.prems(4) have "d p < n" by simp
    from Suc.IH[OF pre \<open>p < length (globs h0)\<close> this]
    show "\<exists>h'. Globals_Copy n p h = Some (length (globs h), h')
                        \<and> profs h' = profs h \<and> length (globs h) < length (globs h')
                        \<and> (\<forall>x<length (globs h). glob h' x = glob h x)" .
  qed
  from copyGlobalsParents_returns[where ps="gparents (glob h0 a)" and g="?L", OF ih 1 2 Suc.prems(1)]
  obtain h' where
    h': "copyGlobalsParents n ?L (gparents (glob h0 a)) ?h1 = Some h'" "profs h' = profs ?h1"
    "length (globs ?h1) \<le> length (globs h')"
    "\<forall>x<length (globs ?h1). x \<noteq> ?L \<longrightarrow> glob h' x = glob ?h1 x"
    by blast
  have r: "Globals_Copy (Suc n) a h = Some (?L, h')"
    using h'(1) by (simp add: alloc_Globals_def ga)
  have 3: "profs h' = profs h" using h'(2) by simp
  have 4: "?L < length (globs h')" using h'(3) by simp
  have 5: "\<forall>x<?L. glob h' x = glob h x"
  proof (intro allI impI)
    fix x assume x: "x < ?L"
    then have "glob h' x = glob ?h1 x" using h'(4) by simp
    also have "\<dots> = glob h x" using x by (simp add: glob_def nth_append)
    finally show "glob h' x = glob h x" .
  qed
  from r 3 4 5 show ?case by blast
qed

section \<open>Copying the container\<close>

lemma Copy_result:
  assumes closed: "\<forall>a<length (profs h). \<forall>p\<in>set (parents (prof h a)). p < length (profs h)"
    and base: "cs_baseLayerProfile s < length (profs h)"
    and allp: "set (cs_allProfiles s) \<subseteq> {..<length (profs h)}"
    and gr: "globalsRanked h d" and g: "cs_globals s < length (globs h)"
  shows "\<exists>h' tp gc v.
      Copy (h, s) = Some (h', \<lparr> cs_globals = gc,
                               cs_baseLayerProfile = the (v (cs_baseLayerProfile s)),
                               cs_allProfiles = tp,
                               cs_activeProfiles = filter (\<lambda>a. \<not> hidden (prof h' a)) tp,
                               cs_warnings = cs_warnings s,
                               cs_loadError = cs_loadError s,
                               cs_deserializationErrorMessage = cs_deserializationErrorMessage s,
                               cs_currentDefaultTerminal = cs_currentDefaultTerminal s \<rparr>)
    \<and> tp = map (\<lambda>a. the (v a)) (cs_allProfiles s)
    \<and> v (cs_baseLayerProfile s) \<noteq> None
    \<and> (\<forall>a\<in>set (cs_allProfiles s). v a \<noteq> None)
    \<and> (\<forall>a<length (profs h). prof h' a = prof h a)
    \<and> (\<forall>a c. v a = Some c \<longrightarrow>
           a < length (profs h) \<and> length (profs h) \<le> c \<and> c < length (profs h')
           \<and> prof h' c = (prof h a)\<lparr>parents := map (\<lambda>p. the (v p)) (parents (prof h a))\<rparr>
           \<and> (\<forall>p\<in>set (parents (prof h a)). v p \<noteq> None))
    \<and> (\<forall>a b c. v a = Some c \<longrightarrow> v b = Some c \<longrightarrow> a = b)
    \<and> (\<forall>c. length (profs h) \<le> c \<longrightarrow> c < length (profs h') \<longrightarrow> (\<exists>a. v a = Some c))"
proof -
  let ?N = "length (profs h)"
  have inv0: "copyInv h (h, Map.empty)" by (rule copyInv_start)
  have f0: "2 * ?N < Suc ?N + length (profs h)" by simp
  from CopyInterned_returns[OF closed inv0 base f0] obtain b h1 v1 where
    c1: "CopyInterned (Suc ?N) (cs_baseLayerProfile s) (h, Map.empty) = Some (b, h1, v1)"
    by auto
  from CopyInterned_post[OF closed inv0 base c1]
  have post1: "copyPost h (h, Map.empty) (h1, v1)" and vb: "v1 (cs_baseLayerProfile s) = Some b"
    by simp_all
  have f1: "2 * ?N < Suc ?N + length (profs h1)" using copyPostD(3)[OF post1] by simp
  from CopyInheritanceGraph_returns[OF closed copyPostD(1)[OF post1] allp f1, of "[]"]
  obtain tp h2 v2 where
    c2: "CopyInheritanceGraph (Suc ?N) (cs_allProfiles s) ([], h1, v1) = Some (tp, h2, v2)"
    by auto
  from CopyInheritanceGraph_post[OF closed copyPostD(1)[OF post1] allp c2]
  have post2: "copyPost h (h1, v1) (h2, v2)" and tp: "tp = map (\<lambda>a. the (v2 a)) (cs_allProfiles s)"
    and dv: "\<forall>a\<in>set (cs_allProfiles s). v2 a \<noteq> None"
    by simp_all
  have post: "copyPost h (h, Map.empty) (h2, v2)" using post1 post2 by (rule copyPost_trans)
  have vb2: "v2 (cs_baseLayerProfile s) = Some b" using copyPostD(2)[OF post2 vb] .
  have g2: "globs h2 = globs h" using copyPostD(5)[OF post] .
  have dg: "d (cs_globals s) < length (globs h)" using gr g by (simp add: globalsRanked_def)
  have "\<exists>h'. Globals_Copy (length (globs h)) (cs_globals s) h2 = Some (length (globs h2), h')
            \<and> profs h' = profs h2 \<and> length (globs h2) < length (globs h')
            \<and> (\<forall>x<length (globs h2). glob h' x = glob h2 x)"
    by (rule Globals_Copy_returns[OF gr _ _ g dg]) (simp_all add: g2 glob_def)
  then obtain h3 where
    c3: "Globals_Copy (length (globs h)) (cs_globals s) h2 = Some (length (globs h2), h3)"
    and p3: "profs h3 = profs h2"
    by blast
  have pe: "\<And>a. prof h3 a = prof h2 a" by (simp add: prof_def p3)
  have run: "Copy (h, s) = Some (h3, \<lparr> cs_globals = length (globs h2),
                               cs_baseLayerProfile = the (v2 (cs_baseLayerProfile s)),
                               cs_allProfiles = tp,
                               cs_activeProfiles = filter (\<lambda>a. \<not> hidden (prof h3 a)) tp,
                               cs_warnings = cs_warnings s,
                               cs_loadError = cs_loadError s,
                               cs_deserializationErrorMessage = cs_deserializationErrorMessage s,
                               cs_currentDefaultTerminal = cs_currentDefaultTerminal s \<rparr>)"
    unfolding Copy_def prod.case c1 option.case c2 c3 by (simp add: vb2)
  note i = copyInvD[OF copyPostD(1)[OF post]]
  have l3: "length (profs h3) = length (profs h2)" by (simp add: p3)
  have 1: "\<forall>a<length (profs h). prof h3 a = prof h a" using i(2) pe by simp
  have 2: "\<forall>a c. v2 a = Some c \<longrightarrow>
           a < length (profs h) \<and> length (profs h) \<le> c \<and> c < length (profs h3)
           \<and> prof h3 c = (prof h a)\<lparr>parents := map (\<lambda>p. the (v2 p)) (parents (prof h a))\<rparr>
           \<and> (\<forall>p\<in>set (parents (prof h a)). v2 p \<noteq> None)"
  proof (intro allI impI)
    fix a c assume a: "v2 a = Some c"
    have "complete h (h2, v2) a c" by (rule copyPostD(6)[OF post _ a]) simp
    then show "a < length (profs h) \<and> length (profs h) \<le> c \<and> c < length (profs h3)
           \<and> prof h3 c = (prof h a)\<lparr>parents := map (\<lambda>p. the (v2 p)) (parents (prof h a))\<rparr>
           \<and> (\<forall>p\<in>set (parents (prof h a)). v2 p \<noteq> None)"
      unfolding complete_iff pe l3 using i(3)[OF a] i(4)[OF a] i(5)[OF a] by simp
  qed
  have 3: "\<forall>a b c. v2 a = Some c \<longrightarrow> v2 b = Some c \<longrightarrow> a = b" using i(6) by blast
  have 4: "\<forall>c. length (profs h) \<le> c \<longrightarrow> c < length (profs h3) \<longrightarrow> (\<exists>a. v2 a = Some c)"
    unfolding l3 using i(7) by blast
  have vb3: "v2 (cs_baseLayerProfile s) \<noteq> None" using vb2 by simp
  from run tp vb3 dv 1 2 3 4 show ?thesis by blast
qed

text \<open>C7. \<^verbatim>\<open>Copy\<close> preserves sharing in the profile graph. For a container whose profile
  references stay inside the heap (and whose globals have acyclic parent lists) \<^verbatim>\<open>Copy\<close>
  returns, the source profiles are unchanged, and there is one interning map \<open>v\<close> from the
  visited source profiles to the cells added to the heap such that: the copied base-layer
  profile and the copied profile list are the images of the source's under \<open>v\<close>; the clone
  of a profile has the fields of the profile and, as parents, the images under \<open>v\<close> of the
  profile's parents, in order; \<open>v\<close> is one-to-one and every added cell is the clone of
  exactly one source profile. Hence wherever two source profiles have the same parent, their
  clones have the same cell as parent; in particular every clone whose source had the
  base-layer profile as a parent has the one copied base-layer profile at that position.\<close>

theorem C7_Copy_preserves_sharing:
  assumes "\<forall>a<length (profs h). \<forall>p\<in>set (parents (prof h a)). p < length (profs h)"
    and "cs_baseLayerProfile s < length (profs h)"
    and "set (cs_allProfiles s) \<subseteq> {..<length (profs h)}"
    and "globalsRanked h d" and "cs_globals s < length (globs h)"
  shows "\<exists>h' s' v.
      Copy (h, s) = Some (h', s')
    \<and> cs_baseLayerProfile s' = the (v (cs_baseLayerProfile s))
    \<and> cs_allProfiles s' = map (\<lambda>a. the (v a)) (cs_allProfiles s)
    \<and> v (cs_baseLayerProfile s) \<noteq> None
    \<and> (\<forall>a\<in>set (cs_allProfiles s). v a \<noteq> None)
    \<and> (\<forall>a<length (profs h). prof h' a = prof h a)
    \<and> (\<forall>a c. v a = Some c \<longrightarrow>
           a < length (profs h) \<and> length (profs h) \<le> c \<and> c < length (profs h')
           \<and> prof h' c = (prof h a)\<lparr>parents := map (\<lambda>p. the (v p)) (parents (prof h a))\<rparr>
           \<and> (\<forall>p\<in>set (parents (prof h a)). v p \<noteq> None))
    \<and> (\<forall>a b c. v a = Some c \<longrightarrow> v b = Some c \<longrightarrow> a = b)
    \<and> (\<forall>c. length (profs h) \<le> c \<longrightarrow> c < length (profs h') \<longrightarrow> (\<exists>a. v a = Some c))
    \<and> (\<forall>a b i j. v a \<noteq> None \<longrightarrow> v b \<noteq> None
           \<longrightarrow> i < length (parents (prof h a)) \<longrightarrow> j < length (parents (prof h b))
           \<longrightarrow> parents (prof h a) ! i = parents (prof h b) ! j
           \<longrightarrow> parents (prof h' (the (v a))) ! i = parents (prof h' (the (v b))) ! j)
    \<and> (\<forall>a\<in>set (cs_allProfiles s). \<forall>i<length (parents (prof h a)).
           parents (prof h a) ! i = cs_baseLayerProfile s
           \<longrightarrow> parents (prof h' (the (v a))) ! i = cs_baseLayerProfile s')"
proof -
  from Copy_result[OF assms] obtain h' tp gc v where
    R: "Copy (h, s) = Some (h', \<lparr> cs_globals = gc,
                               cs_baseLayerProfile = the (v (cs_baseLayerProfile s)),
                               cs_allProfiles = tp,
                               cs_activeProfiles = filter (\<lambda>a. \<not> hidden (prof h' a)) tp,
                               cs_warnings = cs_warnings s,
                               cs_loadError = cs_loadError s,
                               cs_deserializationErrorMessage = cs_deserializationErrorMessage s,
                               cs_currentDefaultTerminal = cs_currentDefaultTerminal s \<rparr>)
    \<and> tp = map (\<lambda>a. the (v a)) (cs_allProfiles s)
    \<and> v (cs_baseLayerProfile s) \<noteq> None
    \<and> (\<forall>a\<in>set (cs_allProfiles s). v a \<noteq> None)
    \<and> (\<forall>a<length (profs h). prof h' a = prof h a)
    \<and> (\<forall>a c. v a = Some c \<longrightarrow>
           a < length (profs h) \<and> length (profs h) \<le> c \<and> c < length (profs h')
           \<and> prof h' c = (prof h a)\<lparr>parents := map (\<lambda>p. the (v p)) (parents (prof h a))\<rparr>
           \<and> (\<forall>p\<in>set (parents (prof h a)). v p \<noteq> None))
    \<and> (\<forall>a b c. v a = Some c \<longrightarrow> v b = Some c \<longrightarrow> a = b)
    \<and> (\<forall>c. length (profs h) \<le> c \<longrightarrow> c < length (profs h') \<longrightarrow> (\<exists>a. v a = Some c))"
    by (elim exE)
  note run = R[THEN conjunct1] and r1 = R[THEN conjunct2]
  note tp = r1[THEN conjunct1] and r2 = r1[THEN conjunct2]
  note vb = r2[THEN conjunct1] and r3 = r2[THEN conjunct2]
  note dv = r3[THEN conjunct1] and r4 = r3[THEN conjunct2]
  note old = r4[THEN conjunct1] and r5 = r4[THEN conjunct2]
  note cl = r5[THEN conjunct1] and r6 = r5[THEN conjunct2]
  note inj = r6[THEN conjunct1] and sur = r6[THEN conjunct2]
  let ?s' = "\<lparr> cs_globals = gc,
                               cs_baseLayerProfile = the (v (cs_baseLayerProfile s)),
                               cs_allProfiles = tp,
                               cs_activeProfiles = filter (\<lambda>a. \<not> hidden (prof h' a)) tp,
                               cs_warnings = cs_warnings s,
                               cs_loadError = cs_loadError s,
                               cs_deserializationErrorMessage = cs_deserializationErrorMessage s,
                               cs_currentDefaultTerminal = cs_currentDefaultTerminal s \<rparr>"
  have par: "parents (prof h' (the (v a))) = map (\<lambda>p. the (v p)) (parents (prof h a))"
    if "v a \<noteq> None" for a
  proof -
    from that obtain c where c: "v a = Some c" by auto
    from cl[rule_format, OF c]
    have "prof h' c = (prof h a)\<lparr>parents := map (\<lambda>p. the (v p)) (parents (prof h a))\<rparr>"
      by simp
    with c show ?thesis by simp
  qed
  have sh: "\<forall>a b i j. v a \<noteq> None \<longrightarrow> v b \<noteq> None
           \<longrightarrow> i < length (parents (prof h a)) \<longrightarrow> j < length (parents (prof h b))
           \<longrightarrow> parents (prof h a) ! i = parents (prof h b) ! j
           \<longrightarrow> parents (prof h' (the (v a))) ! i = parents (prof h' (the (v b))) ! j"
    by (simp add: par)
  have shb: "\<forall>a\<in>set (cs_allProfiles s). \<forall>i<length (parents (prof h a)).
           parents (prof h a) ! i = cs_baseLayerProfile s
           \<longrightarrow> parents (prof h' (the (v a))) ! i = cs_baseLayerProfile ?s'"
    using dv by (simp add: par)
  have b: "cs_baseLayerProfile ?s' = the (v (cs_baseLayerProfile s))" by simp
  have t: "cs_allProfiles ?s' = map (\<lambda>a. the (v a)) (cs_allProfiles s)" using tp by simp
  show ?thesis
    by (rule exI[of _ h'], rule exI[of _ ?s'], rule exI[of _ v])
       (intro conjI run b t vb dv old cl inj sur sh shb)
qed

lemma copy_facts:
  "length (profs copyHeap) = 4" "length (globs copyHeap) = 2"
  "cs_baseLayerProfile copySettings = 0" "cs_allProfiles copySettings = [2, 3]"
  "cs_globals copySettings = 1"
  "parents (prof copyHeap 0) = []" "parents (prof copyHeap (Suc 0)) = []"
  "parents (prof copyHeap 2) = [0, 1]" "parents (prof copyHeap 3) = [0]"
  "gparents (glob copyHeap 0) = []" "gparents (glob copyHeap (Suc 0)) = [0]"
  by (simp_all add: copyHeap_def copySettings_def prof_def glob_def sampleProfile_def
      make_Profile_def make_Globals_def)

lemma copyHeap_closed:
  "\<forall>a<length (profs copyHeap). \<forall>p\<in>set (parents (prof copyHeap a)). p < length (profs copyHeap)"
proof (intro allI impI)
  fix a assume "a < length (profs copyHeap)"
  then have "a = 0 \<or> a = Suc 0 \<or> a = 2 \<or> a = 3" by (auto simp: copy_facts)
  then show "\<forall>p\<in>set (parents (prof copyHeap a)). p < length (profs copyHeap)"
    by (auto simp: copy_facts)
qed

lemma copyHeap_globalsRanked: "globalsRanked copyHeap (\<lambda>a. a)"
  unfolding globalsRanked_def
proof (intro allI impI)
  fix a assume "a < length (globs copyHeap)"
  then have "a = 0 \<or> a = Suc 0" by (auto simp: copy_facts)
  then show "a < length (globs copyHeap)
     \<and> (\<forall>p\<in>set (gparents (glob copyHeap a)). p < length (globs copyHeap) \<and> p < a)"
    by (auto simp: copy_facts)
qed

lemma Copy_copyHeap:
  "map_option snd (Copy (copyHeap, copySettings))
     = Some \<lparr> cs_globals = 2, cs_baseLayerProfile = 4, cs_allProfiles = [5, 7],
              cs_activeProfiles = [5], cs_warnings = [], cs_loadError = None,
              cs_deserializationErrorMessage = [], cs_currentDefaultTerminal = None \<rparr>"
  by (simp add: Copy_def copyHeap_def copySettings_def alloc_Profile_def alloc_Globals_def
      CopySettings_def InsertParent_def Globals_InsertParent_def upd_prof_def upd_glob_def
      prof_def glob_def sampleProfile_def make_Profile_def make_Globals_def
      numeral_2_eq_2 numeral_3_eq_3 eval_nat_numeral)

theorem C7_Copy_preserves_sharing_witness:
  "\<exists>h' s'. Copy (copyHeap, copySettings) = Some (h', s')
     \<and> cs_baseLayerProfile s' = 4 \<and> cs_allProfiles s' = [5, 7] \<and> cs_activeProfiles s' = [5]
     \<and> parents (prof h' 5) ! 0 = 4 \<and> parents (prof h' 7) ! 0 = 4
     \<and> parents (prof h' 2) = [0, 1] \<and> parents (prof h' 3) = [0]"
proof -
  have "cs_baseLayerProfile copySettings < length (profs copyHeap)"
    "set (cs_allProfiles copySettings) \<subseteq> {..<length (profs copyHeap)}"
    "cs_globals copySettings < length (globs copyHeap)"
    by (simp_all add: copy_facts)
  from C7_Copy_preserves_sharing[OF copyHeap_closed this(1,2) copyHeap_globalsRanked this(3)]
  obtain h' s' v where
    R: "Copy (copyHeap, copySettings) = Some (h', s')
    \<and> cs_baseLayerProfile s' = the (v (cs_baseLayerProfile copySettings))
    \<and> cs_allProfiles s' = map (\<lambda>a. the (v a)) (cs_allProfiles copySettings)
    \<and> v (cs_baseLayerProfile copySettings) \<noteq> None
    \<and> (\<forall>a\<in>set (cs_allProfiles copySettings). v a \<noteq> None)
    \<and> (\<forall>a<length (profs copyHeap). prof h' a = prof copyHeap a)
    \<and> (\<forall>a c. v a = Some c \<longrightarrow>
           a < length (profs copyHeap) \<and> length (profs copyHeap) \<le> c \<and> c < length (profs h')
           \<and> prof h' c = (prof copyHeap a)\<lparr>parents := map (\<lambda>p. the (v p)) (parents (prof copyHeap a))\<rparr>
           \<and> (\<forall>p\<in>set (parents (prof copyHeap a)). v p \<noteq> None))
    \<and> (\<forall>a b c. v a = Some c \<longrightarrow> v b = Some c \<longrightarrow> a = b)
    \<and> (\<forall>c. length (profs copyHeap) \<le> c \<longrightarrow> c < length (profs h') \<longrightarrow> (\<exists>a. v a = Some c))
    \<and> (\<forall>a b i j. v a \<noteq> None \<longrightarrow> v b \<noteq> None
           \<longrightarrow> i < length (parents (prof copyHeap a)) \<longrightarrow> j < length (parents (prof copyHeap b))
           \<longrightarrow> parents (prof copyHeap a) ! i = parents (prof copyHeap b) ! j
           \<longrightarrow> parents (prof h' (the (v a))) ! i = parents (prof h' (the (v b))) ! j)
    \<and> (\<forall>a\<in>set (cs_allProfiles copySettings). \<forall>i<length (parents (prof copyHeap a)).
           parents (prof copyHeap a) ! i = cs_baseLayerProfile copySettings
           \<longrightarrow> parents (prof h' (the (v a))) ! i = cs_baseLayerProfile s')"
    by (elim exE)
  note run = R[THEN conjunct1] and r1 = R[THEN conjunct2]
  note b = r1[THEN conjunct1] and r2 = r1[THEN conjunct2]
  note t = r2[THEN conjunct1] and r3 = r2[THEN conjunct2]
  note vb = r3[THEN conjunct1] and r4 = r3[THEN conjunct2]
  note r5 = r4[THEN conjunct2]
  note old = r5[THEN conjunct1] and r6 = r5[THEN conjunct2]
  note cl = r6[THEN conjunct1] and r7 = r6[THEN conjunct2]
  note r8 = r7[THEN conjunct2]
  note r9 = r8[THEN conjunct2]
  note shb = r9[THEN conjunct2]
  from Copy_copyHeap run have s': "s' = \<lparr> cs_globals = 2, cs_baseLayerProfile = 4, cs_allProfiles = [5, 7],
              cs_activeProfiles = [5], cs_warnings = [], cs_loadError = None,
              cs_deserializationErrorMessage = [], cs_currentDefaultTerminal = None \<rparr>"
    by simp
  have 1: "cs_baseLayerProfile s' = 4" "cs_allProfiles s' = [5, 7]" "cs_activeProfiles s' = [5]"
    by (simp_all add: s')
  have 2: "parents (prof h' 5) ! 0 = 4"
    using shb[rule_format, of 2 0] t 1 by (simp add: copy_facts)
  have 3: "parents (prof h' 7) ! 0 = 4"
    using shb[rule_format, of 3 0] t 1 by (simp add: copy_facts)
  have 5: "parents (prof h' 2) = [0, 1]" "parents (prof h' 3) = [0]"
    using old by (simp_all add: copy_facts)
  show ?thesis
    by (rule exI[of _ h'], rule exI[of _ s']) (intro conjI run 1 2 3 5)
qed


section \<open>Parsing: which entries are taken up\<close>

lemma parseProfiles_returns:
  assumes "\<forall>j\<in>set (filter isValidProfileObject es). \<exists>p. Profile_FromJson env j = Inr p"
  shows "\<exists>h' ws' s'. parseProfiles env tag es (h, ws, s) = (None, h', ws', s')"
  using assms
proof (induction es arbitrary: h ws s)
  case Nil
  then show ?case by simp
next
  case (Cons j es)
  show ?case
  proof (cases "isValidProfileObject j")
    case False
    with Cons show ?thesis by simp
  next
    case True
    with Cons.prems obtain p where p: "Profile_FromJson env j = Inr p" by auto
    obtain a h1 where al: "alloc_Profile (stampProfile env tag p) h = (a, h1)"
      by (cases "alloc_Profile (stampProfile env tag p) h") auto
    obtain ws1 s1 where ap: "appendProfile env h1 a (ws, s) = (ws1, s1)"
      by (cases "appendProfile env h1 a (ws, s)") auto
    from Cons.prems have "\<forall>j\<in>set (filter isValidProfileObject es). \<exists>p. Profile_FromJson env j = Inr p"
      by simp
    from Cons.IH[OF this, of h1 ws1 s1] True p al ap show ?thesis by simp
  qed
qed

lemma parse_returns:
  assumes "GlobalAppSettings_FromJson env json = Inr g0"
    and "Profile_FromJson env (defaultsObjectOf json) = Inr b0"
    and "\<forall>j\<in>set (filter isValidProfileObject (elements (profilesArrayOf json))).
           \<exists>p. Profile_FromJson env j = Inr p"
  shows "\<exists>s' h' ws'. parse env tag json (h, ws) = (Inr s', h', ws')"
proof -
  obtain ga h1 where g: "alloc_Globals
      (if \<not> isNull (getJSONValue json SchemesKey)
       then addSchemes env (elements (getJSONValue json SchemesKey)) g0 else g0) h = (ga, h1)"
    by (cases "alloc_Globals
      (if \<not> isNull (getJSONValue json SchemesKey)
       then addSchemes env (elements (getJSONValue json SchemesKey)) g0 else g0) h") auto
  obtain ba h2 where b: "alloc_Profile (b0\<lparr>guid := None, origin := ProfilesDefaults\<rparr>) h1 = (ba, h2)"
    by (cases "alloc_Profile (b0\<lparr>guid := None, origin := ProfilesDefaults\<rparr>) h1") auto
  from parseProfiles_returns[OF assms(3), of tag h2 ws "emptyParsedSettings ga ba"]
  obtain h' ws' s' where
    "parseProfiles env tag (elements (profilesArrayOf json)) (h2, ws, emptyParsedSettings ga ba)
       = (None, h', ws', s')" by blast
  then have "parse env tag json (h, ws) = (Inr s', h', ws')"
    using assms(1,2) g b by (simp add: parse_def Let_def)
  then show ?thesis by blast
qed

lemma parse_counts:
  assumes "parse env tag json (h, ws) = (Inr s', h', ws')"
  shows "length (profiles s') + (length ws' - length ws)
           = length (filter isValidProfileObject (elements (profilesArrayOf json)))
       \<and> length (profs h') = Suc (length (profs h))
           + length (filter isValidProfileObject (elements (profilesArrayOf json)))
       \<and> set (profiles s') \<subseteq> {Suc (length (profs h)) ..< length (profs h')}"
proof -
  let ?es = "elements (profilesArrayOf json)"
  from parse_Inr[OF assms] obtain h2 where
    run: "parseProfiles env tag ?es (h2, ws, emptyParsedSettings (length (globs h)) (length (profs h)))
            = (None, h', ws', s')"
    and l2: "length (profs h2) = Suc (length (profs h))"
    by blast
  from parseProfiles_heap[OF run]
  have l': "length (profs h') = length (profs h2) + length (filter isValidProfileObject ?es)"
    by simp
  let ?as = "[length (profs h2) ..< length (profs h')]"
  let ?G = "\<lambda>a. Guid env (prof h' a)"
  from parseProfiles_append[OF run]
  have "appendAll env h' ?as (ws, emptyParsedSettings (length (globs h)) (length (profs h))) = (ws', s')"
    by simp
  from appendAll_char[OF this]
  have p: "profiles s' = firstOcc ?G {} ?as"
    and w: "ws' = ws @ replicate (length ?as - length (firstOcc ?G {} ?as)) DuplicateProfile"
    by (simp_all add: emptyParsedSettings_def)
  have le: "length (firstOcc ?G {} ?as) \<le> length ?as" by (rule firstOcc_length)
  have 1: "length (profiles s') + (length ws' - length ws) = length (filter isValidProfileObject ?es)"
    using p w le l' by simp
  have 2: "length (profs h') = Suc (length (profs h)) + length (filter isValidProfileObject ?es)"
    using l' l2 by simp
  have 3: "set (profiles s') \<subseteq> {Suc (length (profs h)) ..< length (profs h')}"
    using firstOcc_subset[of ?G "{}" ?as] p l2 by auto
  from 1 2 3 show ?thesis by blast
qed

text \<open>
  C8. While \<^verbatim>\<open>_parse\<close> walks the profile list, every entry is put to one test: it is a JSON
  object with a \<open>name\<close> member or a \<open>guid\<close> member.
  \<^item> An entry that fails the test is skipped: the walk goes on with the heap, the warnings and
    the parsed settings as they were.
  \<^item> An entry that passes the test and that \<^verbatim>\<open>Profile::FromJson\<close> turns into a profile is taken
    up: the profile, stamped with the origin of the source, is allocated and handed to
    \<^verbatim>\<open>_appendProfile\<close>. If its GUID is not indexed yet it is appended to the profile list and
    indexed, and no warning is added; if the GUID is indexed already the list and the index
    stay as they were and a \<open>DuplicateProfile\<close> warning is added.
  \<^item> An entry that passes the test and on which \<^verbatim>\<open>Profile::FromJson\<close> throws ends the walk with
    that exception.

  So a one-entry walk leaves everything as it was exactly if the entry fails the test, and the
  list can be filtered beforehand without changing the result. When \<^verbatim>\<open>_parse\<close> returns, its
  result is that of the walk over the profile list of the document, begun with an empty
  profile list and an empty GUID index; the entries that pass the test are as many as the
  listed profiles and the new warnings together, each of them has a profile in the heap, and
  the listed profiles are among those.
  \<^verbatim>\<open>_parse\<close> returns whenever the globals, the defaults and the entries that pass the test can
  be read. When no entry of a source passes the test, the source's profile list and GUID index
  are empty and no warning was added.
\<close>

theorem C8_invalid_profile_objects_skipped:
  "isValidProfileObject j =
     (\<exists>ms. j = JObject ms \<and> (map_of ms ''name'' \<noteq> None \<or> map_of ms ''guid'' \<noteq> None))
   \<and> (\<not> isValidProfileObject j
      \<longrightarrow> parseProfiles env tag (j # rest) (h, ws, s) = parseProfiles env tag rest (h, ws, s))
   \<and> (isValidProfileObject j \<and> Profile_FromJson env j = Inr parsed
        \<and> profilesByGuid s (Guid env (stampProfile env tag parsed)) = None
      \<longrightarrow> parseProfiles env tag (j # rest) (h, ws, s)
          = parseProfiles env tag rest
              (h\<lparr>profs := profs h @ [stampProfile env tag parsed]\<rparr>, ws,
               s\<lparr>profilesByGuid := (profilesByGuid s)
                                      (Guid env (stampProfile env tag parsed) \<mapsto> length (profs h)),
                 profiles := profiles s @ [length (profs h)]\<rparr>))
   \<and> (isValidProfileObject j \<and> Profile_FromJson env j = Inr parsed
        \<and> profilesByGuid s (Guid env (stampProfile env tag parsed)) \<noteq> None
      \<longrightarrow> parseProfiles env tag (j # rest) (h, ws, s)
          = parseProfiles env tag rest
              (h\<lparr>profs := profs h @ [stampProfile env tag parsed]\<rparr>, ws @ [DuplicateProfile], s))
   \<and> (isValidProfileObject j \<and> Profile_FromJson env j = Inl e
      \<longrightarrow> parseProfiles env tag (j # rest) (h, ws, s) = (Some e, h, ws, s))
   \<and> (parseProfiles env tag [j] (h, ws, s) = (None, h, ws, s)) = (\<not> isValidProfileObject j)
   \<and> parseProfiles env tag es st = parseProfiles env tag (filter isValidProfileObject es) st
   \<and> (parse env tag json (h, ws) = (Inr s', h', ws')
      \<longrightarrow> length (profiles s') + (length ws' - length ws)
            = length (filter isValidProfileObject (elements (profilesArrayOf json)))
        \<and> length (profs h') = Suc (length (profs h))
            + length (filter isValidProfileObject (elements (profilesArrayOf json)))
        \<and> set (profiles s') \<subseteq> {Suc (length (profs h)) ..< length (profs h')}
        \<and> (\<exists>h2. length (profs h2) = Suc (length (profs h))
               \<and> parseProfiles env tag (elements (profilesArrayOf json))
                     (h2, ws, emptyParsedSettings (length (globs h)) (length (profs h)))
                   = (None, h', ws', s')))
   \<and> (GlobalAppSettings_FromJson env json = Inr gl
        \<and> Profile_FromJson env (defaultsObjectOf json) = Inr bl
        \<and> (\<forall>x\<in>set (filter isValidProfileObject (elements (profilesArrayOf json))).
              \<exists>p. Profile_FromJson env x = Inr p)
      \<longrightarrow> (\<exists>s' h' ws'. parse env tag json (h, ws) = (Inr s', h', ws')))
   \<and> (filter isValidProfileObject (elements (profilesArrayOf json)) = []
        \<and> parse env tag json (h, ws) = (Inr s', h', ws')
      \<longrightarrow> profiles s' = [] \<and> profilesByGuid s' = (\<lambda>g. None) \<and> ws' = ws)"
proof (intro conjI impI)
  show "isValidProfileObject j =
     (\<exists>ms. j = JObject ms \<and> (map_of ms ''name'' \<noteq> None \<or> map_of ms ''guid'' \<noteq> None))"
    by (cases j) (simp_all add: isValidProfileObject_def isMember_def NameKey_def GuidKey_def)
next
  assume "\<not> isValidProfileObject j"
  then show "parseProfiles env tag (j # rest) (h, ws, s) = parseProfiles env tag rest (h, ws, s)"
    by simp
next
  assume a: "isValidProfileObject j \<and> Profile_FromJson env j = Inr parsed
        \<and> profilesByGuid s (Guid env (stampProfile env tag parsed)) = None"
  let ?h1 = "h\<lparr>profs := profs h @ [stampProfile env tag parsed]\<rparr>"
  have "prof ?h1 (length (profs h)) = stampProfile env tag parsed" by (simp add: prof_def)
  with a show "parseProfiles env tag (j # rest) (h, ws, s)
          = parseProfiles env tag rest
              (?h1, ws,
               s\<lparr>profilesByGuid := (profilesByGuid s)
                                      (Guid env (stampProfile env tag parsed) \<mapsto> length (profs h)),
                 profiles := profiles s @ [length (profs h)]\<rparr>)"
    by (simp add: alloc_Profile_def appendProfile_def)
next
  assume a: "isValidProfileObject j \<and> Profile_FromJson env j = Inr parsed
        \<and> profilesByGuid s (Guid env (stampProfile env tag parsed)) \<noteq> None"
  let ?h1 = "h\<lparr>profs := profs h @ [stampProfile env tag parsed]\<rparr>"
  have "prof ?h1 (length (profs h)) = stampProfile env tag parsed" by (simp add: prof_def)
  with a show "parseProfiles env tag (j # rest) (h, ws, s)
          = parseProfiles env tag rest (?h1, ws @ [DuplicateProfile], s)"
    by (auto simp: alloc_Profile_def appendProfile_def)
next
  assume "isValidProfileObject j \<and> Profile_FromJson env j = Inl e"
  then show "parseProfiles env tag (j # rest) (h, ws, s) = (Some e, h, ws, s)" by simp
next
  show "(parseProfiles env tag [j] (h, ws, s) = (None, h, ws, s)) = (\<not> isValidProfileObject j)"
  proof (cases "isValidProfileObject j")
    case False then show ?thesis by simp
  next
    case True
    have "parseProfiles env tag [j] (h, ws, s) \<noteq> (None, h, ws, s)"
    proof
      assume eq: "parseProfiles env tag [j] (h, ws, s) = (None, h, ws, s)"
      from parseProfiles_heap[OF eq] True show False by simp
    qed
    with True show ?thesis by simp
  qed
next
  show "parseProfiles env tag es st = parseProfiles env tag (filter isValidProfileObject es) st"
    by (simp add: parseProfiles_filter)
next
  assume a: "parse env tag json (h, ws) = (Inr s', h', ws')"
  note c = parse_counts[OF a]
  show "length (profiles s') + (length ws' - length ws)
            = length (filter isValidProfileObject (elements (profilesArrayOf json)))"
    using c by blast
  show "length (profs h') = Suc (length (profs h))
            + length (filter isValidProfileObject (elements (profilesArrayOf json)))"
    using c by blast
  show "set (profiles s') \<subseteq> {Suc (length (profs h)) ..< length (profs h')}"
    using c by blast
  show "\<exists>h2. length (profs h2) = Suc (length (profs h))
               \<and> parseProfiles env tag (elements (profilesArrayOf json))
                     (h2, ws, emptyParsedSettings (length (globs h)) (length (profs h)))
                   = (None, h', ws', s')"
    using parse_Inr[OF a] by blast
next
  assume "GlobalAppSettings_FromJson env json = Inr gl
        \<and> Profile_FromJson env (defaultsObjectOf json) = Inr bl
        \<and> (\<forall>x\<in>set (filter isValidProfileObject (elements (profilesArrayOf json))).
              \<exists>p. Profile_FromJson env x = Inr p)"
  then show "\<exists>s' h' ws'. parse env tag json (h, ws) = (Inr s', h', ws')"
    using parse_returns by blast
next
  assume a: "filter isValidProfileObject (elements (profilesArrayOf json)) = []
        \<and> parse env tag json (h, ws) = (Inr s', h', ws')"
  then obtain h2 where
    "parseProfiles env tag (elements (profilesArrayOf json))
          (h2, ws, emptyParsedSettings (length (globs h)) (length (profs h))) = (None, h', ws', s')"
    using parse_Inr by blast
  then have "parseProfiles env tag (filter isValidProfileObject (elements (profilesArrayOf json)))
          (h2, ws, emptyParsedSettings (length (globs h)) (length (profs h))) = (None, h', ws', s')"
    by (simp add: parseProfiles_filter)
  with a have "s' = emptyParsedSettings (length (globs h)) (length (profs h)) \<and> ws' = ws"
    by simp
  then show "profiles s' = []" and "profilesByGuid s' = (\<lambda>g. None)" and "ws' = ws"
    by (simp_all add: emptyParsedSettings_def)
qed


lemma namelessThenNamed_elements:
  "elements (profilesArrayOf namelessThenNamed)
     = [JObject [(''commandline'', JString ''cmd.exe'')], JString ''not an object'',
        JObject [(''name'', JString ''first''), (''guid'', JInt 7)]]"
  "elements (profilesArrayOf oneNamelessProfile) = [JObject [(''commandline'', JString ''cmd.exe'')]]"
  by (simp_all add: namelessThenNamed_def oneNamelessProfile_def profilesArrayOf_def
      getJSONValue_def ProfilesKey_def ProfilesListKey_def)

lemma parse_eq:
  assumes "GlobalAppSettings_FromJson env json = Inr gl"
    and "isNull (getJSONValue json SchemesKey)"
    and "Profile_FromJson env (defaultsObjectOf json) = Inr bl"
    and "parseProfiles env tag (elements (profilesArrayOf json))
           (\<lparr>profs = profs h @ [bl\<lparr>guid := None, origin := ProfilesDefaults\<rparr>],
             globs = globs h @ [gl]\<rparr>, ws,
            emptyParsedSettings (length (globs h)) (length (profs h))) = (None, h3, ws3, s3)"
  shows "parse env tag json (h, ws) = (Inr s3, h3, ws3)"
proof (cases h)
  case (fields ps gs)
  with assms show ?thesis
    by (simp add: parse_def Let_def alloc_Globals_def alloc_Profile_def)
qed

lemma sample_documents:
  "defaultsObjectOf oneNamelessProfile = JNull" "defaultsObjectOf namelessThenNamed = JNull"
  "isNull (getJSONValue oneNamelessProfile SchemesKey)"
  "isNull (getJSONValue namelessThenNamed SchemesKey)"
  by (simp_all add: namelessThenNamed_def oneNamelessProfile_def defaultsObjectOf_def
      getJSONValue_def ProfilesKey_def DefaultSettingsKey_def SchemesKey_def)

lemma sample_entries_valid:
  "\<not> isValidProfileObject (JObject [(''commandline'', JString ''cmd.exe'')])"
  "\<not> isValidProfileObject (JString ''not an object'')"
  "isValidProfileObject (JObject [(''name'', JString ''first''), (''guid'', JInt 7)])"
  by (simp_all add: isValidProfileObject_def isMember_def NameKey_def GuidKey_def)

theorem C8_invalid_profile_objects_skipped_witness:
  "(\<exists>s' h'. parse sampleEnv User oneNamelessProfile (emptyHeap, []) = (Inr s', h', [])
        \<and> profiles s' = [] \<and> profilesByGuid s' = (\<lambda>g. None) \<and> map name (profs h') = [''Default''])
   \<and> (\<exists>s' h'. parse sampleEnv User namelessThenNamed (emptyHeap, []) = (Inr s', h', [])
        \<and> profiles s' = [1] \<and> profilesByGuid s' 7 = Some 1
        \<and> map name (profs h') = [''Default'', ''first''])
   \<and> (case parseProfiles sampleEnv User
             [JObject [(''name'', JString ''first''), (''guid'', JInt 7)],
              JObject [(''name'', JString ''first''), (''guid'', JInt 7)]]
             (emptyHeap, [], emptyParsedSettings 0 0) of
         (e, h', ws', s') \<Rightarrow> (e, map name (profs h'), ws', profiles s', profilesByGuid s' 7))
      = (None, [''first'', ''first''], [DuplicateProfile], [0], Some 0)"
proof -
  let ?E1 = "JObject [(''commandline'', JString ''cmd.exe'')]"
  let ?E2 = "JString ''not an object''"
  let ?E3 = "JObject [(''name'', JString ''first''), (''guid'', JInt 7)]"
  let ?b = "(sampleProfileFromJson JNull)\<lparr>guid := None, origin := ProfilesDefaults\<rparr>"
  let ?h2 = "\<lparr>profs = [?b], globs = [make_Globals]\<rparr>"
  let ?s0 = "emptyParsedSettings 0 0"
  let ?p3 = "sampleProfileFromJson ?E3"
  note skip = C8_invalid_profile_objects_skipped[where env=sampleEnv and tag=User and h="?h2"
      and ws="[]" and s="?s0", THEN conjunct2, THEN conjunct1, rule_format]
  note take = C8_invalid_profile_objects_skipped[where env=sampleEnv and tag=User and h="?h2"
      and ws="[]" and s="?s0" and j="?E3" and parsed="?p3" and rest="[]",
      THEN conjunct2, THEN conjunct2, THEN conjunct1, rule_format]
  have g3: "Guid sampleEnv (stampProfile sampleEnv User ?p3) = 7"
    by (simp add: stampProfile_def Let_def HasGuid_def Guid_def sampleProfileFromJson_def
        make_Profile_def)
  have n3: "name (stampProfile sampleEnv User ?p3) = ''first''"
    by (simp add: stampProfile_def Let_def HasGuid_def sampleProfileFromJson_def make_Profile_def)
  have nb: "name ?b = ''Default''" by (simp add: sampleProfileFromJson_def make_Profile_def)
  have t: "parseProfiles sampleEnv User [?E3] (?h2, [], ?s0)
        = (None, ?h2\<lparr>profs := profs ?h2 @ [stampProfile sampleEnv User ?p3]\<rparr>, [],
           ?s0\<lparr>profilesByGuid := (profilesByGuid ?s0)(7 \<mapsto> length (profs ?h2)),
               profiles := profiles ?s0 @ [length (profs ?h2)]\<rparr>)"
    using take unfolding g3
    by (simp add: sample_entries_valid sampleEnv_simps emptyParsedSettings_def)
  have r3: "parseProfiles sampleEnv User [?E1, ?E2, ?E3] (?h2, [], ?s0)
        = parseProfiles sampleEnv User [?E3] (?h2, [], ?s0)"
    using skip[of ?E1 "[?E2, ?E3]"] skip[of ?E2 "[?E3]"] by (simp add: sample_entries_valid)
  have r1: "parseProfiles sampleEnv User [?E1] (?h2, [], ?s0) = (None, ?h2, [], ?s0)"
    using skip[of ?E1 "[]"] by (simp add: sample_entries_valid)
  have p1: "parse sampleEnv User oneNamelessProfile (emptyHeap, []) = (Inr ?s0, ?h2, [])"
    by (rule parse_eq[where gl=make_Globals and bl="sampleProfileFromJson JNull"])
       (simp_all only: sampleEnv_simps sample_documents namelessThenNamed_elements emptyHeap_def
          r1 Heap.simps append_Nil list.size)
  have p3: "parse sampleEnv User namelessThenNamed (emptyHeap, [])
      = (Inr (?s0\<lparr>profilesByGuid := (profilesByGuid ?s0)(7 \<mapsto> length (profs ?h2)),
               profiles := profiles ?s0 @ [length (profs ?h2)]\<rparr>),
         ?h2\<lparr>profs := profs ?h2 @ [stampProfile sampleEnv User ?p3]\<rparr>, [])"
    by (rule parse_eq[where gl=make_Globals and bl="sampleProfileFromJson JNull"])
       (simp_all only: sampleEnv_simps sample_documents namelessThenNamed_elements emptyHeap_def
          r3 t Heap.simps append_Nil list.size)
  have a: "\<exists>s' h'. parse sampleEnv User oneNamelessProfile (emptyHeap, []) = (Inr s', h', [])
        \<and> profiles s' = [] \<and> profilesByGuid s' = (\<lambda>g. None) \<and> map name (profs h') = [''Default'']"
    unfolding p1 by (simp add: emptyParsedSettings_def nb)
  have b: "\<exists>s' h'. parse sampleEnv User namelessThenNamed (emptyHeap, []) = (Inr s', h', [])
        \<and> profiles s' = [1] \<and> profilesByGuid s' 7 = Some 1
        \<and> map name (profs h') = [''Default'', ''first'']"
    unfolding p3 by (simp add: emptyParsedSettings_def nb n3)
  let ?q = "stampProfile sampleEnv User ?p3"
  let ?h1 = "emptyHeap\<lparr>profs := profs emptyHeap @ [?q]\<rparr>"
  let ?s1 = "?s0\<lparr>profilesByGuid := (profilesByGuid ?s0)(Guid sampleEnv ?q \<mapsto> length (profs emptyHeap)),
                 profiles := profiles ?s0 @ [length (profs emptyHeap)]\<rparr>"
  note first = C8_invalid_profile_objects_skipped[where env=sampleEnv and tag=User
      and h=emptyHeap and ws="[]" and s="?s0" and j="?E3" and parsed="?p3" and rest="[?E3]",
      THEN conjunct2, THEN conjunct2, THEN conjunct1, rule_format]
  note again = C8_invalid_profile_objects_skipped[where env=sampleEnv and tag=User
      and h="?h1" and ws="[]" and s="?s1" and j="?E3" and parsed="?p3" and rest="[]",
      THEN conjunct2, THEN conjunct2, THEN conjunct2, THEN conjunct1, rule_format]
  have v3: "isValidProfileObject ?E3" by (simp add: sample_entries_valid)
  have f3: "Profile_FromJson sampleEnv ?E3 = Inr ?p3" by (simp add: sampleEnv_simps)
  have n0: "profilesByGuid ?s0 (Guid sampleEnv ?q) = None" by (simp add: emptyParsedSettings_def)
  have n1: "profilesByGuid ?s1 (Guid sampleEnv ?q) \<noteq> None" by simp
  have d1: "parseProfiles sampleEnv User [?E3, ?E3] (emptyHeap, [], ?s0)
        = parseProfiles sampleEnv User [?E3] (?h1, [], ?s1)"
    by (rule first) (intro conjI v3 f3 n0)
  have d2: "parseProfiles sampleEnv User [?E3] (?h1, [], ?s1)
        = parseProfiles sampleEnv User [] (?h1\<lparr>profs := profs ?h1 @ [?q]\<rparr>, [] @ [DuplicateProfile], ?s1)"
    by (rule again) (intro conjI v3 f3 n1)
  have c: "(case parseProfiles sampleEnv User [?E3, ?E3] (emptyHeap, [], ?s0) of
         (e, h', ws', s') \<Rightarrow> (e, map name (profs h'), ws', profiles s', profilesByGuid s' 7))
      = (None, [''first'', ''first''], [DuplicateProfile], [0], Some 0)"
    unfolding d1 d2 by (simp add: n3 g3 emptyHeap_def emptyParsedSettings_def)
  from a b c show ?thesis by (intro conjI)
qed


section \<open>What the validation of the colour schemes leaves alone\<close>










section \<open>Which scheme names the validation clears\<close>













section \<open>A fragment that updates a profile synthesized from a generated profile\<close>

text \<open>
  C2. A fragment profile whose \<open>updates\<close> GUID is the GUID of a user profile that
  \<^verbatim>\<open>MergeInboxIntoUserProfiles\<close> synthesized from a generated profile does not become a parent
  of that user profile. In \<open>staleIndexHeap\<close> profile 0 is a generated profile with GUID 1
  that sets the command line to \<open>inbox.exe\<close>; the user has no profile with this GUID; profile
  1 is a fragment profile with \<open>updates = 1\<close> that sets the command line to \<open>fragment.exe\<close>
  and the icon to \<open>fragment.ico\<close>. \<^verbatim>\<open>MergeInboxIntoUserProfiles\<close> appends the synthesized user
  profile 4 with the single parent 0, but it indexes GUID 1 to the generated profile 0.
  \<^verbatim>\<open>MergeFragmentsIntoUserProfiles\<close> then finds profile 0 under GUID 1 and inserts the fragment
  profile at position 0 of the parents of profile 0. The user profile 4 keeps the parents
  \<open>[0]\<close>: its command line resolves to \<open>inbox.exe\<close>, the value of the generated profile, not
  to the value the fragment sets; only what the generated profile leaves unset, the icon,
  comes from the fragment.
\<close>

theorem C2_fragment_updates_synthesized_profile:
  "(case MergeInboxIntoUserProfiles sampleEnv (staleIndexHeap, staleIndexLoader) of
      (h1, loader1) \<Rightarrow>
        (case mergeFragmentProfiles sampleEnv ''ext'' [1]
                (h1, warnings loader1, userSettings loader1) of
           (h2, ws2, user2) \<Rightarrow>
             (profiles user2, profilesByGuid user2 1,
              map (\<lambda>p. (origin p, parents p)) (profs h2),
              Resolved h2 (PK Commandline) 4, Resolved h2 (PK Icon) 4, ws2)))
   = ([4], Some 0,
      [(InBox, [1]), (Fragment, []), (ProfilesDefaults, []), (ProfilesDefaults, []), (User, [0])],
      Some (Some ''inbox.exe''), Some (Some ''fragment.ico''), [])"
  by (simp add: MergeInboxIntoUserProfiles_def staleIndexHeap_def staleIndexLoader_def
      emptyParsedSettings_def ReproduceProfile_eq prof_def Guid_def sampleProfile_def
      make_Profile_def InsertParent_def InsertParentAt_def SetSource_def upd_prof_def
      Resolved_def resolve_def)

end
